theory Spec2Isabelle
  imports Main
begin

section \<open>Python values used by application.py\<close>

text \<open>
  Exceptions are values. Every class below is a subclass of Python's \<open>Exception\<close>, so the
  clause \<open>except Exception\<close> catches each of them; the clause \<open>except FileNotFoundError\<close>
  catches \<open>FileNotFoundError\<close> only. \<open>open\<close> raises \<open>FileNotFoundError\<close> for a missing file and
  \<open>PermissionError\<close> for an unreadable one; \<open>pickle.load\<close> raises \<open>UnpicklingError\<close> on a
  corrupt file. \<open>RuntimeError\<close> carries the exception's text.
\<close>

datatype exn =
    FileNotFoundError
  | PermissionError
  | UnpicklingError
  | AttributeError
  | IndexError
  | RuntimeError string

text \<open>
  A float. \<open>repr\<close> and \<open>str\<close> print a finite float from the shortest decimal numeral that
  reads back to it, so a finite float is given here by that numeral: \<open>PyFinite neg m e\<close> is
  \<open>m\<close> times ten to the power \<open>e\<close>, negated when \<open>neg\<close> holds, where \<open>m\<close> is not a multiple of
  ten unless the float is zero (then \<open>m = 0\<close>, and \<open>neg\<close> tells \<open>-0.0\<close> from \<open>0.0\<close>). So 1.5 is
  \<open>PyFinite False 15 (-1)\<close> and 100.0 is \<open>PyFinite False 1 2\<close>.
\<close>

datatype pyfloat = PyNaN | PyInf bool | PyFinite bool nat int

text \<open>
  A prediction is either a native Python value or a numpy scalar, which boxes a native value
  and has the method \<open>item()\<close> that returns it.
\<close>

datatype native = PyStr string | PyInt int | PyFloat pyfloat | PyBool bool | PyNone

datatype pyvalue = Native native | NumpyScalar native

text \<open>\<open>str()\<close> of a native value; integers print in decimal.\<close>

fun str_nat :: "nat \<Rightarrow> string" where
  "str_nat n =
     (if n < 10 then [''0123456789'' ! n]
      else str_nat (n div 10) @ [''0123456789'' ! (n mod 10)])"

declare str_nat.simps [simp del]

definition str_int :: "int \<Rightarrow> string" where
  "str_int i = (if i < 0 then CHR ''-'' # str_nat (nat (- i)) else str_nat (nat i))"

text \<open>
  \<open>float.__repr__\<close>. With \<open>ds\<close> the digits of the numeral and \<open>decpt\<close> the number of those
  digits that stand before the decimal point (negative or zero when the float is below 0.1
  or 1, larger than the number of digits when zeros have to be added), the float prints with
  an exponent when \<open>decpt \<le> -4\<close> or \<open>16 < decpt\<close>, the exponent with its sign and at least two
  digits, and in positional notation with at least one digit after the point otherwise.
\<close>

definition float_repr :: "pyfloat \<Rightarrow> string" where
  "float_repr x =
     (case x of
        PyNaN \<Rightarrow> ''nan''
      | PyInf neg \<Rightarrow> (if neg then ''-inf'' else ''inf'')
      | PyFinite neg m e \<Rightarrow>
          (if neg then ''-'' else [])
          @ (if m = 0 then ''0.0''
             else
               let ds = str_nat m;
                   n = int (length ds);
                   decpt = n + e
               in if decpt \<le> - 4 \<or> 16 < decpt then
                    hd ds # (if tl ds = [] then [] else CHR ''.'' # tl ds)
                    @ ''e'' @ (if decpt - 1 < 0 then ''-'' else ''+'')
                    @ (let ex = str_nat (nat \<bar>decpt - 1\<bar>)
                       in if length ex < 2 then CHR ''0'' # ex else ex)
                  else if decpt \<le> 0 then
                    ''0.'' @ replicate (nat (- decpt)) CHR ''0'' @ ds
                  else if decpt < n then
                    take (nat decpt) ds @ ''.'' @ drop (nat decpt) ds
                  else ds @ replicate (nat (decpt - n)) CHR ''0'' @ ''.0''))"

fun py_str :: "native \<Rightarrow> string" where
  "py_str (PyStr s) = s"
| "py_str (PyInt i) = str_int i"
| "py_str (PyFloat x) = float_repr x"
| "py_str (PyBool b) = (if b then ''True'' else ''False'')"
| "py_str PyNone = ''None''"

text \<open>
  \<open>str.strip()\<close> drops leading and trailing whitespace. A \<open>char\<close> stands for a code point
  below 256; among those, Python's \<open>str.isspace\<close> holds for 9-13, 28-32, 133 and 160.
\<close>

definition py_isspace :: "char \<Rightarrow> bool" where
  "py_isspace c =
     (let n = (of_char c :: nat)
      in (9 \<le> n \<and> n \<le> 13) \<or> (28 \<le> n \<and> n \<le> 32) \<or> n = 133 \<or> n = 160)"

definition py_strip :: "string \<Rightarrow> string" where
  "py_strip s = rev (dropWhile py_isspace (rev (dropWhile py_isspace s)))"

text \<open>
  \<open>str.__repr__\<close>, for code points below 256; among those, \<open>str.isprintable\<close> holds for
  32-126 and for 161-255 except 173. The string is printed between single quotes, or between
  double quotes when it has a single quote and no double quote. The quote and the backslash
  are printed after a backslash; tab, newline and carriage return as a backslash and the
  letter t, n or r; every other code point that is not printable as a backslash, the letter
  x and two hexadecimal digits.
\<close>

definition py_isprintable :: "char \<Rightarrow> bool" where
  "py_isprintable c =
     (let n = (of_char c :: nat)
      in (32 \<le> n \<and> n < 127) \<or> (161 \<le> n \<and> n \<noteq> 173))"

definition repr_char :: "char \<Rightarrow> char \<Rightarrow> string" where
  "repr_char quote c =
     (let n = (of_char c :: nat)
      in if c = quote \<or> c = CHR 0x5C then [CHR 0x5C, c]
         else if n = 9 then [CHR 0x5C, CHR ''t'']
         else if n = 10 then [CHR 0x5C, CHR ''n'']
         else if n = 13 then [CHR 0x5C, CHR ''r'']
         else if \<not> py_isprintable c then
           [CHR 0x5C, CHR ''x'',
            ''0123456789abcdef'' ! (n div 16), ''0123456789abcdef'' ! (n mod 16)]
         else [c])"

definition repr_str :: "string \<Rightarrow> string" where
  "repr_str s =
     (let quote = (if CHR 0x27 \<in> set s \<and> CHR 0x22 \<notin> set s then CHR 0x22 else CHR 0x27)
      in quote # concat (map (repr_char quote) s) @ [quote])"

text \<open>\<open>sep.join(xs)\<close>.\<close>

fun py_join :: "string \<Rightarrow> string list \<Rightarrow> string" where
  "py_join sep [] = []"
| "py_join sep [x] = x"
| "py_join sep (x # y # ys) = x @ sep @ py_join sep (y # ys)"

text \<open>
  A parsed JSON value, as \<open>request.get_json\<close> returns it: a number without fraction and
  exponent is a Python int, every other number a float (\<open>NaN\<close>, \<open>Infinity\<close> and \<open>-Infinity\<close>
  are read as floats too); a dict is an association list with distinct keys, in the order of
  the dict.
\<close>

datatype json =
    JNull
  | JBool bool
  | JInt int
  | JFloat pyfloat
  | JStr string
  | JArr "json list"
  | JObj "(string \<times> json) list"

text \<open>Python truthiness, which \<open>or\<close> and \<open>not\<close> test.\<close>

fun truthy :: "json \<Rightarrow> bool" where
  "truthy JNull = False"
| "truthy (JBool b) = b"
| "truthy (JInt i) = (i \<noteq> 0)"
| "truthy (JFloat x) = (case x of PyFinite neg m e \<Rightarrow> m \<noteq> 0 | _ \<Rightarrow> True)"
| "truthy (JStr s) = (s \<noteq> [])"
| "truthy (JArr xs) = (xs \<noteq> [])"
| "truthy (JObj kvs) = (kvs \<noteq> [])"

text \<open>
  \<open>repr\<close> of a parsed JSON value: a list prints the \<open>repr\<close> of its items between brackets, a
  dict the \<open>repr\<close> of each key, a colon and the \<open>repr\<close> of its value between braces, both
  separated by a comma and a space.
\<close>

fun repr_json :: "json \<Rightarrow> string" where
  "repr_json JNull = ''None''"
| "repr_json (JBool b) = (if b then ''True'' else ''False'')"
| "repr_json (JInt i) = str_int i"
| "repr_json (JFloat x) = float_repr x"
| "repr_json (JStr s) = repr_str s"
| "repr_json (JArr xs) = ''['' @ py_join '', '' (map repr_json xs) @ '']''"
| "repr_json (JObj kvs) =
     ''{'' @ py_join '', '' (map (\<lambda>kv. repr_str (fst kv) @ '': '' @ repr_json (snd kv)) kvs) @ ''}''"

section \<open>Artifacts, the file system and the module globals\<close>

text \<open>
  A feature batch is a matrix of counts, one row for each text of the batch. A deserialized
  artifact is an object with the two duck-typed methods the code calls; an object that lacks
  a method is one whose method raises \<open>AttributeError\<close>.
\<close>

type_synonym feat = "nat list list"

record obj =
  transform :: "string list \<Rightarrow> exn + feat"
  predict :: "feat \<Rightarrow> exn + pyvalue list"

text \<open>
  What the code takes from outside at the time of a call: \<open>open(path, "rb")\<close> gives the
  bytes of the file or raises, and \<open>pickle.load\<close> gives the pickled object (\<open>None\<close> when the
  file holds a pickled \<open>None\<close>) or raises.
\<close>

record world =
  fs_open :: "string \<Rightarrow> exn + string"
  pickle_load :: "string \<Rightarrow> exn + obj option"

datatype artifact = ModelFile | VectorizerFile

text \<open>
  The events a spy on the lock, on the artifact source and on the inference function would
  record, oldest first.
\<close>

datatype event =
    Acquire
  | Release
  | Opened artifact
  | Unpickled artifact
  | Inferred string

text \<open>
  The module globals of application.py: the two resolved paths (lines 16-17), the two loaded
  artifacts (lines 25-26), and the spy's trace.
\<close>

record globals =
  MODEL_PATH :: string
  VECTORIZER_PATH :: string
  loaded_model :: "obj option"
  vectorizer :: "obj option"
  trace :: "event list"

definition emit :: "event \<Rightarrow> globals \<Rightarrow> globals" where
  "emit e g = g\<lparr>trace := trace g @ [e]\<rparr>"

section \<open>Path resolution (lines 15-17)\<close>

text \<open>\<open>os.path.join\<close> of two components on POSIX.\<close>

definition path_join :: "string \<Rightarrow> string \<Rightarrow> string" where
  "path_join a b =
     (if b \<noteq> [] \<and> hd b = CHR ''/'' then b
      else if a = [] \<or> last a = CHR ''/'' then a @ b
      else a @ ''/'' @ b)"

text \<open>\<open>os.getenv(name) or default\<close>: \<open>None\<close> and the empty string are both falsy.\<close>

definition getenv_or :: "(string \<rightharpoonup> string) \<Rightarrow> string \<Rightarrow> string \<Rightarrow> string" where
  "getenv_or environ name dflt =
     (case environ name of
        None \<Rightarrow> dflt
      | Some v \<Rightarrow> if v \<noteq> [] then v else dflt)"

text \<open>
  The state of the module after import; \<open>base_dir\<close> is
  \<open>os.path.dirname(os.path.abspath(__file__))\<close>.
\<close>

definition import_module :: "(string \<rightharpoonup> string) \<Rightarrow> string \<Rightarrow> globals" where
  "import_module environ base_dir =
     \<lparr> MODEL_PATH = getenv_or environ ''MODEL_PATH'' (path_join base_dir ''basic_classifier.pkl''),
       VECTORIZER_PATH =
         getenv_or environ ''VECTORIZER_PATH'' (path_join base_dir ''count_vectorizer.pkl''),
       loaded_model = None,
       vectorizer = None,
       trace = [] \<rparr>"

section \<open>Artifact loading (lines 30-43)\<close>

text \<open>
  \<open>with open(path, "rb") as f: x = pickle.load(f)\<close>: the object, or the exception raised by
  \<open>open\<close> or by \<open>pickle.load\<close>, with the events recorded.
\<close>

definition read_pickle ::
  "world \<Rightarrow> artifact \<Rightarrow> string \<Rightarrow> globals \<Rightarrow> (exn + obj option) \<times> globals" where
  "read_pickle w a path g =
     (case fs_open w path of
        Inl e \<Rightarrow> (Inl e, g)
      | Inr bytes \<Rightarrow>
          (case pickle_load w bytes of
             Inl e \<Rightarrow> (Inl e, emit (Opened a) g)
           | Inr x \<Rightarrow> (Inr x, emit (Unpickled a) (emit (Opened a) g))))"

text \<open>
  The body of the \<open>with _artifact_lock\<close> block, lines 36-43. The assignment to
  \<open>_loaded_model\<close> on line 40 takes effect before line 41 runs.
\<close>

definition load_locked :: "world \<Rightarrow> globals \<Rightarrow> (exn + unit) \<times> globals" where
  "load_locked w g =
     (if loaded_model g = None \<or> vectorizer g = None then
        (case read_pickle w ModelFile (MODEL_PATH g) g of
           (Inl e, g1) \<Rightarrow> (Inl e, g1)
         | (Inr m, g1) \<Rightarrow>
             (let g2 = g1\<lparr>loaded_model := m\<rparr>
              in case read_pickle w VectorizerFile (VECTORIZER_PATH g2) g2 of
                   (Inl e, g3) \<Rightarrow> (Inl e, g3)
                 | (Inr v, g3) \<Rightarrow> (Inr (), g3\<lparr>vectorizer := v\<rparr>)))
      else (Inr (), g))"

text \<open>
  \<open>_load_artifacts_once\<close>: the fast path of line 33, then the lock, which the \<open>with\<close>
  statement releases on return and on exception alike.
\<close>

definition load_artifacts_once :: "world \<Rightarrow> globals \<Rightarrow> (exn + unit) \<times> globals" where
  "load_artifacts_once w g =
     (if loaded_model g \<noteq> None \<and> vectorizer g \<noteq> None then (Inr (), g)
      else (case load_locked w (emit Acquire g) of
              (r, g') \<Rightarrow> (r, emit Release g')))"

text \<open>\<open>_eager_load_background\<close> (lines 57-62): the exception is logged and swallowed.\<close>

definition eager_load_background :: "world \<Rightarrow> globals \<Rightarrow> globals" where
  "eager_load_background w g = snd (load_artifacts_once w g)"

section \<open>Inference (lines 46-54)\<close>

text \<open>\<open>val.item() if hasattr(val, "item") else val\<close>\<close>

fun unbox :: "pyvalue \<Rightarrow> native" where
  "unbox (NumpyScalar n) = n"
| "unbox (Native n) = n"

text \<open>
  A method call on a global that may hold \<open>None\<close>: \<open>None\<close> has no attribute \<open>transform\<close> or
  \<open>predict\<close>.
\<close>

definition call_transform :: "obj option \<Rightarrow> string list \<Rightarrow> exn + feat" where
  "call_transform v batch = (case v of None \<Rightarrow> Inl AttributeError | Some x \<Rightarrow> transform x batch)"

definition call_predict :: "obj option \<Rightarrow> feat \<Rightarrow> exn + pyvalue list" where
  "call_predict m X = (case m of None \<Rightarrow> Inl AttributeError | Some x \<Rightarrow> predict x X)"

text \<open>Lines 49-54, run on the globals as they are after line 48.\<close>

definition infer :: "globals \<Rightarrow> string \<Rightarrow> exn + string" where
  "infer g message =
     (case call_transform (vectorizer g) [message] of
        Inl e \<Rightarrow> Inl e
      | Inr X \<Rightarrow>
          (case call_predict (loaded_model g) X of
             Inl e \<Rightarrow> Inl e
           | Inr pred \<Rightarrow>
               (case pred of
                  [] \<Rightarrow> Inl IndexError
                | val # _ \<Rightarrow> Inr (py_str (unbox val)))))"

definition predict_text :: "world \<Rightarrow> globals \<Rightarrow> string \<Rightarrow> (exn + string) \<times> globals" where
  "predict_text w g message =
     (case load_artifacts_once w (emit (Inferred message) g) of
        (Inl e, g') \<Rightarrow> (Inl e, g')
      | (Inr _, g') \<Rightarrow> (infer g' message, g'))"

section \<open>HTTP layer (lines 131-204)\<close>

text \<open>
  The values passed to \<open>render_template_string(DEMO_HTML, ...)\<close>, with the form field that the
  template reads from the request on line 105.
\<close>

record page =
  model_loaded :: bool
  model_path :: string
  prediction :: "string option"
  error :: "string option"
  form_message :: string


text \<open>
  A response body: a \<open>jsonify\<close>-ed dict, DEMO_HTML rendered with a context, or the page that
  Flask sends with status 500 when a view raises.
\<close>

datatype body = JsonBody "(string \<times> json) list" | HtmlBody page | InternalServerError

record response =
  status :: nat
  body :: body

definition both_loaded :: "globals \<Rightarrow> bool" where
  "both_loaded g = (loaded_model g \<noteq> None \<and> vectorizer g \<noteq> None)"

definition health :: "globals \<Rightarrow> response" where
  "health g =
     \<lparr> status = 200,
       body = JsonBody
         [(''status'', JStr ''ok''),
          (''model_loaded'', JBool (both_loaded g)),
          (''model_path'', JStr (MODEL_PATH g)),
          (''vectorizer_path'', JStr (VECTORIZER_PATH g))] \<rparr>"

definition demo :: "globals \<Rightarrow> response" where
  "demo g =
     \<lparr> status = 200,
       body = HtmlBody
         \<lparr> model_loaded = both_loaded g, model_path = MODEL_PATH g,
           prediction = None, error = None, form_message = [] \<rparr> \<rparr>"

text \<open>
  \<open>predict_form\<close>; \<open>field\<close> is \<open>request.form.get("message")\<close>, \<open>None\<close> when the form has no
  such field.
\<close>

definition predict_form :: "world \<Rightarrow> globals \<Rightarrow> string option \<Rightarrow> response \<times> globals" where
  "predict_form w g field =
     (let raw = (case field of None \<Rightarrow> [] | Some s \<Rightarrow> s);
          message = py_strip raw
      in if message = [] then
           (\<lparr> status = 400,
              body = HtmlBody
                \<lparr> model_loaded = both_loaded g, model_path = MODEL_PATH g, prediction = None,
                  error = Some ''Field 'message' is required and must be non-empty.'',
                  form_message = raw \<rparr> \<rparr>, g)
         else
           (case predict_text w g message of
              (Inr label, g') \<Rightarrow>
                (\<lparr> status = 200,
                   body = HtmlBody
                     \<lparr> model_loaded = True, model_path = MODEL_PATH g', prediction = Some label,
                       error = None, form_message = raw \<rparr> \<rparr>, g')
            | (Inl e, g') \<Rightarrow>
                if e = FileNotFoundError then
                  (\<lparr> status = 503,
                     body = HtmlBody
                       \<lparr> model_loaded = False, model_path = MODEL_PATH g', prediction = None,
                         error = Some ''Model artifacts not found on server.'',
                         form_message = raw \<rparr> \<rparr>, g')
                else
                  (\<lparr> status = 500,
                     body = HtmlBody
                       \<lparr> model_loaded = both_loaded g', model_path = MODEL_PATH g',
                         prediction = None, error = Some ''Inference failed.'',
                         form_message = raw \<rparr> \<rparr>, g')))"

text \<open>
  \<open>str()\<close> of a parsed JSON value: a string is itself, and every other value prints as its
  \<open>repr\<close>.
\<close>

definition str_json :: "json \<Rightarrow> string" where
  "str_json v = (case v of JStr s \<Rightarrow> s | _ \<Rightarrow> repr_json v)"

text \<open>
  Lines 193-194. \<open>parsed\<close> is \<open>request.get_json(silent=True)\<close>: \<open>None\<close> when the body is not
  JSON. A falsy value is replaced by the empty dict; \<open>.get\<close> on a value that is not a dict
  raises \<open>AttributeError\<close>.
\<close>

definition json_message :: "json option \<Rightarrow> exn + string" where
  "json_message parsed =
     (let data = (case parsed of
                    None \<Rightarrow> JObj []
                  | Some j \<Rightarrow> if truthy j then j else JObj [])
      in case data of
           JObj kvs \<Rightarrow>
             Inr (py_strip (str_json
                    (case map_of kvs ''message'' of None \<Rightarrow> JStr [] | Some v \<Rightarrow> v)))
         | _ \<Rightarrow> Inl AttributeError)"

text \<open>
  \<open>predict_json\<close>. Lines 193-194 are outside the \<open>try\<close>: an exception there leaves the view,
  and Flask answers 500.
\<close>

definition predict_json :: "world \<Rightarrow> globals \<Rightarrow> json option \<Rightarrow> response \<times> globals" where
  "predict_json w g parsed =
     (case json_message parsed of
        Inl e \<Rightarrow> (\<lparr> status = 500, body = InternalServerError \<rparr>, g)
      | Inr message \<Rightarrow>
          if message = [] then
            (\<lparr> status = 400,
               body = JsonBody
                 [(''error'', JStr ''Field 'message' is required and must be non-empty.'')] \<rparr>, g)
          else
            (case predict_text w g message of
               (Inr label, g') \<Rightarrow>
                 (\<lparr> status = 200, body = JsonBody [(''label'', JStr label)] \<rparr>, g')
             | (Inl e, g') \<Rightarrow>
                 if e = FileNotFoundError then
                   (\<lparr> status = 503,
                      body = JsonBody
                        [(''error'', JStr ''Model artifacts not found on server.'')] \<rparr>, g')
                 else
                   (\<lparr> status = 500,
                      body = JsonBody [(''error'', JStr ''Inference failed.'')] \<rparr>, g')))"

section \<open>Sequences of calls and the spy's counters\<close>


definition count_event :: "event \<Rightarrow> globals \<Rightarrow> nat" where
  "count_event e g = count_list (trace g) e"

text \<open>The events recorded between the state \<open>g\<close> and the later state \<open>g'\<close>.\<close>

definition new_events :: "globals \<Rightarrow> globals \<Rightarrow> event list" where
  "new_events g g' = drop (length (trace g)) (trace g')"

section \<open>Example artifacts, disks and states\<close>

text \<open>
  A stub vectorizer that counts the characters of each text, and a stub classifier that
  predicts a fixed label for each row.
\<close>

definition stub_vectorizer :: obj where
  "stub_vectorizer =
     \<lparr> transform = (\<lambda>batch. Inr (map (\<lambda>t. [length t]) batch)),
       predict = (\<lambda>X. Inl AttributeError) \<rparr>"

definition stub_classifier :: "pyvalue \<Rightarrow> obj" where
  "stub_classifier label =
     \<lparr> transform = (\<lambda>batch. Inl AttributeError),
       predict = (\<lambda>X. Inr (map (\<lambda>row. label) X)) \<rparr>"

text \<open>
  A disk given by its files (path and bytes) and by what each byte string unpickles to: a
  path that is not listed is a missing file, bytes that are not listed are corrupt.
\<close>

definition disk :: "(string \<times> string) list \<Rightarrow> (string \<times> obj option) list \<Rightarrow> world" where
  "disk files pickled =
     \<lparr> fs_open = (\<lambda>path. case map_of files path of
                               None \<Rightarrow> Inl FileNotFoundError
                             | Some bytes \<Rightarrow> Inr bytes),
       pickle_load = (\<lambda>bytes. case map_of pickled bytes of
                                  None \<Rightarrow> Inl UnpicklingError
                                | Some x \<Rightarrow> Inr x) \<rparr>"

definition pickles :: "(string \<times> obj option) list" where
  "pickles = [(''M'', Some (stub_classifier (Native (PyStr ''FAKE'')))),
              (''V'', Some stub_vectorizer)]"

definition good_disk :: world where
  "good_disk = disk [(''/srv/app/basic_classifier.pkl'', ''M''),
                     (''/srv/app/count_vectorizer.pkl'', ''V'')] pickles"

definition no_vectorizer_disk :: world where
  "no_vectorizer_disk = disk [(''/srv/app/basic_classifier.pkl'', ''M'')] pickles"

definition corrupt_disk :: world where
  "corrupt_disk = disk [(''/srv/app/basic_classifier.pkl'', ''garbage''),
                        (''/srv/app/count_vectorizer.pkl'', ''V'')] pickles"

definition empty_disk :: world where
  "empty_disk = disk [] pickles"

definition env_override :: "string \<rightharpoonup> string" where
  "env_override = [''MODEL_PATH'' \<mapsto> ''/m.pkl'', ''VECTORIZER_PATH'' \<mapsto> []]"

text \<open>The process right after import, and a process whose artifacts are loaded.\<close>

definition cold :: globals where
  "cold = import_module Map.empty ''/srv/app''"

definition warm :: "pyvalue \<Rightarrow> globals" where
  "warm label =
     cold\<lparr>loaded_model := Some (stub_classifier label), vectorizer := Some stub_vectorizer\<rparr>"

section \<open>Concurrent calls of the loader\<close>

text \<open>
  How a call of \<open>_load_artifacts_once\<close> ended: on the fast path of line 33, after taking
  the lock and finding both artifacts present on line 36, or after loading them.
\<close>

datatype how = FastPath | Waited | Loaded

text \<open>
  The position of a thread inside \<open>_load_artifacts_once\<close>. Each step reads or writes the
  shared globals once: the two operands of line 33, the acquisition of the lock on line 35,
  the two operands of line 36, the two loads, and the release of the lock when the \<open>with\<close>
  block is left, normally or with an exception.
\<close>

datatype pc =
    FastCheckModel
  | FastCheckVectorizer
  | WaitLock
  | CheckModel
  | CheckVectorizer
  | LoadModel
  | LoadVectorizer
  | Unlock "exn + how"
  | Returned how
  | Raised exn

text \<open>
  The process: the module globals, the thread that holds \<open>_artifact_lock\<close> if any, and the
  position of each calling thread.
\<close>

record process =
  shared :: globals
  lock :: "nat option"
  threads :: "pc list"

text \<open>
  One step of thread \<open>i\<close> at position \<open>p\<close>: its next position, the globals and the lock
  after the step; \<open>None\<close> when the thread cannot move, because it waits for the lock or has
  left the function.
\<close>

definition thread_step ::
  "world \<Rightarrow> nat \<Rightarrow> pc \<Rightarrow> globals \<Rightarrow> nat option \<Rightarrow> (pc \<times> globals \<times> nat option) option" where
  "thread_step w i p g l =
     (case p of
        FastCheckModel \<Rightarrow>
          Some (if loaded_model g \<noteq> None then FastCheckVectorizer else WaitLock, g, l)
      | FastCheckVectorizer \<Rightarrow>
          Some (if vectorizer g \<noteq> None then Returned FastPath else WaitLock, g, l)
      | WaitLock \<Rightarrow>
          (if l = None then Some (CheckModel, emit Acquire g, Some i) else None)
      | CheckModel \<Rightarrow>
          Some (if loaded_model g = None then LoadModel else CheckVectorizer, g, l)
      | CheckVectorizer \<Rightarrow>
          Some (if vectorizer g = None then LoadModel else Unlock (Inr Waited), g, l)
      | LoadModel \<Rightarrow>
          (case read_pickle w ModelFile (MODEL_PATH g) g of
             (Inl e, g1) \<Rightarrow> Some (Unlock (Inl e), g1, l)
           | (Inr m, g1) \<Rightarrow> Some (LoadVectorizer, g1\<lparr>loaded_model := m\<rparr>, l))
      | LoadVectorizer \<Rightarrow>
          (case read_pickle w VectorizerFile (VECTORIZER_PATH g) g of
             (Inl e, g3) \<Rightarrow> Some (Unlock (Inl e), g3, l)
           | (Inr v, g3) \<Rightarrow> Some (Unlock (Inr Loaded), g3\<lparr>vectorizer := v\<rparr>, l))
      | Unlock out \<Rightarrow>
          Some (case out of Inl e \<Rightarrow> Raised e | Inr h \<Rightarrow> Returned h, emit Release g, None)
      | Returned h \<Rightarrow> None
      | Raised e \<Rightarrow> None)"

text \<open>The scheduler runs thread \<open>i\<close> for one step; nothing happens when it cannot move.\<close>

definition step :: "world \<Rightarrow> process \<Rightarrow> nat \<Rightarrow> process" where
  "step w s i =
     (if i < length (threads s) then
        (case thread_step w i (threads s ! i) (shared s) (lock s) of
           None \<Rightarrow> s
         | Some (p, g, l) \<Rightarrow> \<lparr>shared = g, lock = l, threads = (threads s)[i := p]\<rparr>)
      else s)"

text \<open>A schedule is the list of the threads that run, one step each, in order.\<close>

definition exec :: "world \<Rightarrow> nat list \<Rightarrow> process \<Rightarrow> process" where
  "exec w sched s = foldl (step w) s sched"

text \<open>\<open>n\<close> threads enter \<open>_load_artifacts_once\<close> with the globals \<open>g\<close>.\<close>

definition spawn :: "nat \<Rightarrow> globals \<Rightarrow> process" where
  "spawn n g = \<lparr>shared = g, lock = None, threads = replicate n FastCheckModel\<rparr>"

text \<open>The positions between the acquisition of the lock and its release.\<close>

fun holds_lock :: "pc \<Rightarrow> bool" where
  "holds_lock CheckModel = True"
| "holds_lock CheckVectorizer = True"
| "holds_lock LoadModel = True"
| "holds_lock LoadVectorizer = True"
| "holds_lock (Unlock out) = True"
| "holds_lock p = False"

fun deserializing :: "pc \<Rightarrow> bool" where
  "deserializing LoadModel = True"
| "deserializing LoadVectorizer = True"
| "deserializing p = False"

fun finished :: "pc \<Rightarrow> bool" where
  "finished (Returned h) = True"
| "finished (Raised e) = True"
| "finished p = False"

text \<open>A bound on the number of steps that a thread at a position can still make.\<close>

fun steps_left :: "pc \<Rightarrow> nat" where
  "steps_left FastCheckModel = 8"
| "steps_left FastCheckVectorizer = 7"
| "steps_left WaitLock = 6"
| "steps_left CheckModel = 5"
| "steps_left CheckVectorizer = 4"
| "steps_left LoadModel = 3"
| "steps_left LoadVectorizer = 2"
| "steps_left (Unlock out) = 1"
| "steps_left (Returned h) = 0"
| "steps_left (Raised e) = 0"

definition remaining :: "process \<Rightarrow> nat" where
  "remaining s = sum_list (map steps_left (threads s))"

text \<open>The schedule that runs the threads \<open>0, ..., n - 1\<close> in turn, \<open>k\<close> times.\<close>

definition round_robin :: "nat \<Rightarrow> nat \<Rightarrow> nat list" where
  "round_robin n k = concat (replicate k [0..<n])"

text \<open>
  The lock is held by exactly the thread that is between acquisition and release.
\<close>

definition lock_inv :: "process \<Rightarrow> bool" where
  "lock_inv s =
     ((\<forall>i < length (threads s). holds_lock (threads s ! i) \<longrightarrow> lock s = Some i)
      \<and> (\<forall>i. lock s = Some i \<longrightarrow> i < length (threads s) \<and> holds_lock (threads s ! i)))"

text \<open>What a position tells about the globals when both files deserialize.\<close>

fun pc_ok :: "globals \<Rightarrow> pc \<Rightarrow> bool" where
  "pc_ok g CheckVectorizer = (loaded_model g \<noteq> None)"
| "pc_ok g LoadModel = (loaded_model g = None \<and> vectorizer g = None)"
| "pc_ok g LoadVectorizer = (loaded_model g \<noteq> None \<and> vectorizer g = None)"
| "pc_ok g (Unlock out) =
     ((out = Inr Waited \<or> out = Inr Loaded) \<and> loaded_model g \<noteq> None \<and> vectorizer g \<noteq> None)"
| "pc_ok g (Returned h) = (loaded_model g \<noteq> None \<and> vectorizer g \<noteq> None)"
| "pc_ok g (Raised e) = False"
| "pc_ok g p = True"

text \<open>The thread that has loaded the artifacts in this call.\<close>

fun is_loader :: "pc \<Rightarrow> bool" where
  "is_loader (Unlock out) = (out = Inr Loaded)"
| "is_loader (Returned h) = (h = Loaded)"
| "is_loader p = False"

definition load_inv :: "globals \<Rightarrow> process \<Rightarrow> bool" where
  "load_inv g0 s =
     (MODEL_PATH (shared s) = MODEL_PATH g0
      \<and> VECTORIZER_PATH (shared s) = VECTORIZER_PATH g0
      \<and> count_event (Unpickled ModelFile) (shared s)
          = count_event (Unpickled ModelFile) g0 + (if loaded_model (shared s) = None then 0 else 1)
      \<and> count_event (Unpickled VectorizerFile) (shared s)
          = count_event (Unpickled VectorizerFile) g0
            + (if vectorizer (shared s) = None then 0 else 1)
      \<and> (vectorizer (shared s) \<noteq> None \<longrightarrow> loaded_model (shared s) \<noteq> None)
      \<and> (\<forall>i < length (threads s). pc_ok (shared s) (threads s ! i))
      \<and> (loaded_model (shared s) \<noteq> None \<and> vectorizer (shared s) = None \<longrightarrow>
            (\<exists>i < length (threads s). threads s ! i = LoadVectorizer))
      \<and> (vectorizer (shared s) = None \<longrightarrow>
            (\<forall>i < length (threads s). \<not> is_loader (threads s ! i)))
      \<and> (vectorizer (shared s) \<noteq> None \<longrightarrow>
            (\<exists>k < length (threads s). \<forall>i < length (threads s).
               is_loader (threads s ! i) = (i = k))))"

section \<open>Auxiliary lemmas\<close>

lemmas ex_defs = cold_def warm_def import_module_def getenv_or_def path_join_def good_disk_def
  no_vectorizer_disk_def corrupt_disk_def empty_disk_def disk_def pickles_def
  stub_classifier_def stub_vectorizer_def env_override_def

lemma emit_fields [simp]:
  "MODEL_PATH (emit e g) = MODEL_PATH g"
  "VECTORIZER_PATH (emit e g) = VECTORIZER_PATH g"
  "loaded_model (emit e g) = loaded_model g"
  "vectorizer (emit e g) = vectorizer g"
  "trace (emit e g) = trace g @ [e]"
  by (simp_all add: emit_def)

lemma read_pickle_fields [simp]:
  "MODEL_PATH (snd (read_pickle w a p g)) = MODEL_PATH g"
  "VECTORIZER_PATH (snd (read_pickle w a p g)) = VECTORIZER_PATH g"
  "loaded_model (snd (read_pickle w a p g)) = loaded_model g"
  "vectorizer (snd (read_pickle w a p g)) = vectorizer g"
  by (simp_all add: read_pickle_def split: sum.splits)

lemma load_locked_paths [simp]:
  "MODEL_PATH (snd (load_locked w g)) = MODEL_PATH g"
  "VECTORIZER_PATH (snd (load_locked w g)) = VECTORIZER_PATH g"
  by (simp_all add: load_locked_def Let_def split_beta split: sum.splits)

lemma load_artifacts_once_paths [simp]:
  "MODEL_PATH (snd (load_artifacts_once w g)) = MODEL_PATH g"
  "VECTORIZER_PATH (snd (load_artifacts_once w g)) = VECTORIZER_PATH g"
  by (simp_all add: load_artifacts_once_def split_beta)

lemma predict_text_paths [simp]:
  "MODEL_PATH (snd (predict_text w g m)) = MODEL_PATH g"
  "VECTORIZER_PATH (snd (predict_text w g m)) = VECTORIZER_PATH g"
  by (simp_all add: predict_text_def split_beta split: sum.splits)

lemma predict_form_paths [simp]:
  "MODEL_PATH (snd (predict_form w g f)) = MODEL_PATH g"
  "VECTORIZER_PATH (snd (predict_form w g f)) = VECTORIZER_PATH g"
  by (simp_all add: predict_form_def Let_def split_beta split: sum.splits)

lemma predict_json_paths [simp]:
  "MODEL_PATH (snd (predict_json w g f)) = MODEL_PATH g"
  "VECTORIZER_PATH (snd (predict_json w g f)) = VECTORIZER_PATH g"
  by (simp_all add: predict_json_def Let_def split_beta split: sum.splits)

lemma cold_simps [simp]:
  "MODEL_PATH cold = ''/srv/app/basic_classifier.pkl''"
  "VECTORIZER_PATH cold = ''/srv/app/count_vectorizer.pkl''"
  "loaded_model cold = None" "vectorizer cold = None" "trace cold = []"
  by (simp_all add: ex_defs)




section \<open>Properties\<close>

text \<open>
  C10: each of MODEL_PATH and VECTORIZER_PATH is the value of its environment variable when
  that is set and non-empty, and otherwise the default file name joined to the directory of
  the source file; an empty value counts as unset. The paths are fixed at import: no
  operation of the module changes them.
\<close>

theorem path_resolution:
  "(\<forall>v. environ ''MODEL_PATH'' = Some v \<and> v \<noteq> [] \<longrightarrow>
        MODEL_PATH (import_module environ base_dir) = v)
   \<and> (environ ''MODEL_PATH'' = None \<or> environ ''MODEL_PATH'' = Some [] \<longrightarrow>
        MODEL_PATH (import_module environ base_dir) = path_join base_dir ''basic_classifier.pkl'')
   \<and> (\<forall>v. environ ''VECTORIZER_PATH'' = Some v \<and> v \<noteq> [] \<longrightarrow>
        VECTORIZER_PATH (import_module environ base_dir) = v)
   \<and> (environ ''VECTORIZER_PATH'' = None \<or> environ ''VECTORIZER_PATH'' = Some [] \<longrightarrow>
        VECTORIZER_PATH (import_module environ base_dir)
          = path_join base_dir ''count_vectorizer.pkl'')
   \<and> (base_dir \<noteq> [] \<and> last base_dir \<noteq> CHR ''/'' \<longrightarrow>
        path_join base_dir ''basic_classifier.pkl'' = base_dir @ ''/basic_classifier.pkl''
        \<and> path_join base_dir ''count_vectorizer.pkl'' = base_dir @ ''/count_vectorizer.pkl'')
   \<and> (\<forall>g' \<in> {snd (load_artifacts_once w g), eager_load_background w g,
               snd (predict_text w g message), snd (predict_form w g field),
               snd (predict_json w g parsed)}.
        MODEL_PATH g' = MODEL_PATH g \<and> VECTORIZER_PATH g' = VECTORIZER_PATH g)"
  by (auto simp: import_module_def getenv_or_def path_join_def eager_load_background_def)

theorem path_resolution_witness:
  "MODEL_PATH (import_module env_override ''/srv/app'') = ''/m.pkl''
   \<and> VECTORIZER_PATH (import_module env_override ''/srv/app'') = ''/srv/app/count_vectorizer.pkl''
   \<and> MODEL_PATH (snd (predict_json good_disk cold (Some (JObj [(''message'', JStr ''hi'')]))))
     = ''/srv/app/basic_classifier.pkl''"
  using path_resolution [of env_override "''/srv/app''"
      good_disk cold "''hi''" None "Some (JObj [(''message'', JStr ''hi'')])"]
  by (simp add: env_override_def)

text \<open>
  C8: GET / answers 200 in every state of the globals, and its body reports
  \<open>model_loaded\<close> as true exactly when both the model and the vectorizer are present,
  together with the two resolved paths; right after import it reports false.
\<close>

theorem health_always_200:
  "status (health g) = 200
   \<and> body (health g) =
       JsonBody [(''status'', JStr ''ok''),
                 (''model_loaded'', JBool (loaded_model g \<noteq> None \<and> vectorizer g \<noteq> None)),
                 (''model_path'', JStr (MODEL_PATH g)),
                 (''vectorizer_path'', JStr (VECTORIZER_PATH g))]
   \<and> body (health (import_module environ base_dir)) =
       JsonBody [(''status'', JStr ''ok''),
                 (''model_loaded'', JBool False),
                 (''model_path'', JStr (MODEL_PATH (import_module environ base_dir))),
                 (''vectorizer_path'', JStr (VECTORIZER_PATH (import_module environ base_dir)))]"
  by (simp add: health_def both_loaded_def import_module_def)

theorem health_always_200_witness:
  "status (health (snd (load_artifacts_once no_vectorizer_disk cold))) = 200
   \<and> status (health (snd (load_artifacts_once good_disk cold))) = 200
   \<and> status (health cold) = 200"
  using health_always_200 [of "snd (load_artifacts_once no_vectorizer_disk cold)" Map.empty "[]"]
    health_always_200 [of "snd (load_artifacts_once good_disk cold)" Map.empty "[]"]
    health_always_200 [of cold Map.empty "[]"]
  by simp

text \<open>
  C5: with both artifacts loaded, \<open>_predict_text\<close> passes the one-element batch \<open>[message]\<close>
  to the vectorizer's \<open>transform\<close>, passes the result to the classifier's \<open>predict\<close>, and
  returns \<open>str\<close> of the first prediction, unboxed with \<open>item()\<close> when it is a numpy scalar;
  nothing is loaded, and a prediction that is a plain string is returned as it is.
\<close>

theorem classify_returns_first_prediction:
  assumes "loaded_model g = Some m" and "vectorizer g = Some v"
    and "transform v [message] = Inr X" and "predict m X = Inr (val # rest)"
  shows "predict_text w g message =
           (Inr (py_str (case val of NumpyScalar n \<Rightarrow> n | Native n \<Rightarrow> n)),
            emit (Inferred message) g)
     \<and> (\<forall>s. val = Native (PyStr s) \<longrightarrow> fst (predict_text w g message) = Inr s)"
  using assms
  by (auto simp: predict_text_def load_artifacts_once_def infer_def call_transform_def
      call_predict_def split: pyvalue.splits)

theorem classify_returns_first_prediction_witness:
  "predict_text empty_disk (warm (Native (PyStr ''FAKE''))) ''sample text'' =
     (Inr ''FAKE'', emit (Inferred ''sample text'') (warm (Native (PyStr ''FAKE''))))
   \<and> fst (predict_text empty_disk (warm (NumpyScalar (PyInt 1))) ''sample text'') = Inr ''1''"
proof -
  have v: "vectorizer (warm l) = Some stub_vectorizer"
    and m: "loaded_model (warm l) = Some (stub_classifier l)" for l
    by (simp_all add: warm_def)
  have t: "transform stub_vectorizer [''sample text''] = Inr [[11]]"
    by (simp add: stub_vectorizer_def)
  have p: "predict (stub_classifier l) [[11]] = Inr (l # [])" for l
    by (simp add: stub_classifier_def)
  show ?thesis
    using classify_returns_first_prediction
        [OF m [of "Native (PyStr ''FAKE'')"] v t p, where w = empty_disk]
      classify_returns_first_prediction
        [OF m [of "NumpyScalar (PyInt 1)"] v t p, where w = empty_disk]
    by (simp add: str_int_def str_nat.simps)
qed



subsection \<open>Validation at the boundary\<close>

lemma dropWhile_hd_id: "xs \<noteq> [] \<Longrightarrow> \<not> P (hd xs) \<Longrightarrow> dropWhile P xs = xs"
  by (cases xs) simp_all

lemma py_strip_fixed:
  assumes "s \<noteq> []" and "\<not> py_isspace (hd s)" and "\<not> py_isspace (last s)"
  shows "py_strip s = s"
proof -
  have 1: "dropWhile py_isspace s = s"
    using assms(1,2) by (rule dropWhile_hd_id)
  have "rev s \<noteq> []" using assms(1) by simp
  moreover have "\<not> py_isspace (hd (rev s))" using assms(1,3) by (simp add: hd_rev)
  ultimately have 2: "dropWhile py_isspace (rev s) = rev s"
    by (rule dropWhile_hd_id)
  show ?thesis by (simp add: py_strip_def 1 2)
qed

lemma py_strip_ends:
  assumes "py_strip s \<noteq> []"
  shows "\<not> py_isspace (hd (py_strip s)) \<and> \<not> py_isspace (last (py_strip s))"
proof -
  define u where "u = dropWhile py_isspace s"
  define r where "r = dropWhile py_isspace (rev u)"
  have t: "py_strip s = rev r" by (simp add: py_strip_def u_def r_def)
  have rne: "r \<noteq> []" using assms t by simp
  have "\<not> py_isspace (hd r)" using rne unfolding r_def by (rule hd_dropWhile)
  then have l: "\<not> py_isspace (last (py_strip s))" using rne by (simp add: t last_rev)
  have une: "u \<noteq> []" using rne unfolding r_def by auto
  have hu: "\<not> py_isspace (hd u)" using une unfolding u_def by (rule hd_dropWhile)
  have "rev u = takeWhile py_isspace (rev u) @ r"
    unfolding r_def by simp
  then have "u = rev r @ rev (takeWhile py_isspace (rev u))"
    by (metis rev_append rev_rev_ident)
  then have "hd u = hd (rev r)" using rne by (metis hd_append2 rev_is_Nil_conv)
  then show ?thesis using hu l by (simp add: t)
qed

lemma py_strip_idem: "py_strip (py_strip s) = py_strip s"
proof (cases "py_strip s = []")
  case True
  have "py_strip [] = []" by (simp add: py_strip_def)
  then show ?thesis by (simp add: True)
next
  case False
  then show ?thesis using py_strip_ends [OF False] by (intro py_strip_fixed) simp_all
qed

lemma digit_not_space: "c \<in> set ''0123456789'' \<Longrightarrow> \<not> py_isspace c"
  by (auto simp: py_isspace_def)

lemma str_nat_digits: "str_nat n \<noteq> [] \<and> set (str_nat n) \<subseteq> set ''0123456789''"
proof (induction n rule: str_nat.induct)
  case (1 n)
  have d: "''0123456789'' ! k \<in> set ''0123456789''" if "k < 10" for k
    using that by (intro nth_mem) simp
  show ?case
  proof (cases "n < 10")
    case True
    then show ?thesis using d [of n] by (subst str_nat.simps, subst (2) str_nat.simps) simp
  next
    case False
    have "n mod 10 < 10" by simp
    then show ?thesis using False 1 d [of "n mod 10"]
      by (subst str_nat.simps, subst (2) str_nat.simps) simp
  qed
qed

lemma str_int_strip: "py_strip (str_int i) = str_int i \<and> str_int i \<noteq> []"
proof -
  have ne: "str_nat n \<noteq> []" for n using str_nat_digits by simp
  have a: "\<not> py_isspace c" if "c \<in> set (str_nat n)" for c n
    using that str_nat_digits [of n] digit_not_space by blast
  have h: "\<not> py_isspace (hd (str_nat n))" for n using a [of _ n] ne [of n] by simp
  have l: "\<not> py_isspace (last (str_nat n))" for n using a [of _ n] ne [of n] by simp
  have m: "\<not> py_isspace CHR ''-''" by (simp add: py_isspace_def)
  show ?thesis
    by (rule conjI, rule py_strip_fixed) (simp_all add: str_int_def ne h l m)
qed

lemma read_pickle_trace:
  "\<exists>es. trace (snd (read_pickle w a p g)) = trace g @ es \<and> (\<forall>m. Inferred m \<notin> set es)"
  by (simp add: read_pickle_def split: sum.splits)

lemma load_locked_trace:
  "\<exists>es. trace (snd (load_locked w g)) = trace g @ es \<and> (\<forall>m. Inferred m \<notin> set es)"
  by (simp add: load_locked_def read_pickle_def Let_def emit_def split: sum.splits)

lemma load_artifacts_once_trace:
  "\<exists>es. trace (snd (load_artifacts_once w g)) = trace g @ es \<and> (\<forall>m. Inferred m \<notin> set es)"
proof (cases "loaded_model g \<noteq> None \<and> vectorizer g \<noteq> None")
  case True
  then show ?thesis by (simp add: load_artifacts_once_def)
next
  case False
  obtain es where "trace (snd (load_locked w (emit Acquire g))) = trace (emit Acquire g) @ es"
    "\<forall>m. Inferred m \<notin> set es"
    using load_locked_trace by blast
  then have "trace (snd (load_artifacts_once w g)) = trace g @ (Acquire # es @ [Release])
      \<and> (\<forall>m. Inferred m \<notin> set (Acquire # es @ [Release]))"
    using False by (simp add: load_artifacts_once_def split_beta)
  then show ?thesis by blast
qed

lemma predict_text_trace:
  "\<exists>es. trace (snd (predict_text w g message)) = trace g @ Inferred message # es
        \<and> (\<forall>m. Inferred m \<notin> set es)"
proof -
  obtain es where "trace (snd (load_artifacts_once w (emit (Inferred message) g)))
      = trace (emit (Inferred message) g) @ es" "\<forall>m. Inferred m \<notin> set es"
    using load_artifacts_once_trace by blast
  then have "trace (snd (predict_text w g message)) = trace g @ Inferred message # es
      \<and> (\<forall>m. Inferred m \<notin> set es)"
    by (simp add: predict_text_def split_beta split: sum.splits)
  then show ?thesis by blast
qed

lemma predict_text_new_events:
  "\<exists>es. new_events g (snd (predict_text w g message)) = Inferred message # es
        \<and> (\<forall>m. Inferred m \<notin> set es)"
  using predict_text_trace [of w g message] by (auto simp: new_events_def)

lemma new_events_same [simp]: "new_events g g = []"
  by (simp add: new_events_def)

lemma predict_json_cases:
  "predict_json w g parsed =
     (case json_message parsed of
        Inl e \<Rightarrow> (\<lparr>status = 500, body = InternalServerError\<rparr>, g)
      | Inr message \<Rightarrow>
          if message = [] then
            (\<lparr>status = 400,
              body = JsonBody
                [(''error'', JStr ''Field 'message' is required and must be non-empty.'')]\<rparr>, g)
          else
            (\<lparr>status = (case fst (predict_text w g message) of
                           Inr label \<Rightarrow> 200
                         | Inl e \<Rightarrow> if e = FileNotFoundError then 503 else 500),
              body = JsonBody
                (case fst (predict_text w g message) of
                   Inr label \<Rightarrow> [(''label'', JStr label)]
                 | Inl e \<Rightarrow>
                     [(''error'', JStr (if e = FileNotFoundError
                                        then ''Model artifacts not found on server.''
                                        else ''Inference failed.''))])\<rparr>,
             snd (predict_text w g message)))"
  by (simp add: predict_json_def split_beta split: sum.splits)

lemma predict_form_cases:
  "predict_form w g field =
     (let raw = (case field of None \<Rightarrow> [] | Some s \<Rightarrow> s); message = py_strip raw
      in if message = [] then
           (\<lparr>status = 400,
             body = HtmlBody
               \<lparr>model_loaded = both_loaded g, model_path = MODEL_PATH g, prediction = None,
                 error = Some ''Field 'message' is required and must be non-empty.'',
                 form_message = raw\<rparr>\<rparr>, g)
         else
           (case fst (predict_text w g message) of
              Inr label \<Rightarrow>
                \<lparr>status = 200,
                  body = HtmlBody
                    \<lparr>model_loaded = True, model_path = MODEL_PATH g, prediction = Some label,
                      error = None, form_message = raw\<rparr>\<rparr>
            | Inl e \<Rightarrow>
                \<lparr>status = (if e = FileNotFoundError then 503 else 500),
                  body = HtmlBody
                    \<lparr>model_loaded = (e \<noteq> FileNotFoundError
                         \<and> both_loaded (snd (predict_text w g message))),
                      model_path = MODEL_PATH g, prediction = None,
                      error = Some (if e = FileNotFoundError
                                    then ''Model artifacts not found on server.''
                                    else ''Inference failed.''),
                      form_message = raw\<rparr>\<rparr>,
            snd (predict_text w g message)))"
  by (simp add: predict_form_def Let_def split_beta split: sum.splits)

lemma json_message_object:
  "kvs \<noteq> [] \<Longrightarrow> json_message (Some (JObj kvs)) =
     Inr (py_strip (str_json (case map_of kvs ''message'' of None \<Rightarrow> JStr [] | Some v \<Rightarrow> v)))"
  by (simp add: json_message_def)

lemma json_message_falsy:
  "parsed = None \<or> (\<exists>j. parsed = Some j \<and> \<not> truthy j) \<Longrightarrow> json_message parsed = Inr []"
  by (auto simp: json_message_def str_json_def py_strip_def)

lemma json_message_stripped:
  "json_message parsed = Inr message \<Longrightarrow> py_strip message = message"
  by (auto simp: json_message_def Let_def py_strip_idem split: option.splits if_splits json.splits)

text \<open>
  The validation of the message, where it is reached. When the body of POST /predict is not
  JSON, is falsy, or is an object whose field \<open>message\<close> is missing or has a value whose text
  strips to the empty string, the answer is 400 with the body
  \<open>{"error": "Field 'message' is required and must be non-empty."}\<close> and the globals are
  untouched; /predict-form answers 400 in the same way. Every message that either endpoint
  passes to \<open>_predict_text\<close> is non-empty and not made of whitespace only.
\<close>

theorem predict_json_rejects_empty_message:
  "((parsed = None \<or> (\<exists>j. parsed = Some j \<and> \<not> truthy j)
      \<or> (\<exists>kvs. parsed = Some (JObj kvs) \<and> kvs \<noteq> [] \<and>
            (map_of kvs ''message'' = None
             \<or> (\<exists>v. map_of kvs ''message'' = Some v \<and> py_strip (str_json v) = []))))
     \<longrightarrow> predict_json w g parsed =
           (\<lparr>status = 400,
             body = JsonBody
               [(''error'', JStr ''Field 'message' is required and must be non-empty.'')]\<rparr>, g))
   \<and> (py_strip (case field of None \<Rightarrow> [] | Some s \<Rightarrow> s) = [] \<longrightarrow>
        status (fst (predict_form w g field)) = 400 \<and> snd (predict_form w g field) = g)
   \<and> (\<forall>msg. Inferred msg \<in> set (new_events g (snd (predict_json w g parsed))) \<longrightarrow>
        msg \<noteq> [] \<and> py_strip msg \<noteq> [])
   \<and> (\<forall>msg. Inferred msg \<in> set (new_events g (snd (predict_form w g field))) \<longrightarrow>
        msg \<noteq> [] \<and> py_strip msg \<noteq> [])"
  (is "?json400 \<and> ?form400 \<and> ?json_inferred \<and> ?form_inferred")
proof -
  have p1: ?json400
  proof
    assume a: "parsed = None \<or> (\<exists>j. parsed = Some j \<and> \<not> truthy j)
      \<or> (\<exists>kvs. parsed = Some (JObj kvs) \<and> kvs \<noteq> [] \<and>
            (map_of kvs ''message'' = None
             \<or> (\<exists>v. map_of kvs ''message'' = Some v \<and> py_strip (str_json v) = [])))"
    then consider "parsed = None \<or> (\<exists>j. parsed = Some j \<and> \<not> truthy j)"
      | kvs where "parsed = Some (JObj kvs)" "kvs \<noteq> []" "map_of kvs ''message'' = None"
      | kvs v where "parsed = Some (JObj kvs)" "kvs \<noteq> []" "map_of kvs ''message'' = Some v"
          "py_strip (str_json v) = []"
      by blast
    then have "json_message parsed = Inr []"
    proof cases
      case 1
      then show ?thesis by (rule json_message_falsy)
    next
      case 2
      then show ?thesis by (simp add: json_message_object str_json_def py_strip_def)
    next
      case 3
      then show ?thesis by (simp add: json_message_object)
    qed
    then show "predict_json w g parsed =
           (\<lparr>status = 400,
             body = JsonBody
               [(''error'', JStr ''Field 'message' is required and must be non-empty.'')]\<rparr>, g)"
      by (simp add: predict_json_cases)
  qed
  have p2: ?form400
    by (simp add: predict_form_cases Let_def)
  have p3: ?json_inferred
  proof (intro allI impI)
    fix msg
    assume i: "Inferred msg \<in> set (new_events g (snd (predict_json w g parsed)))"
    show "msg \<noteq> [] \<and> py_strip msg \<noteq> []"
    proof (cases "json_message parsed")
      case (Inl e)
      then show ?thesis using i by (simp add: predict_json_cases)
    next
      case (Inr message)
      show ?thesis
      proof (cases "message = []")
        case True
        then show ?thesis using i Inr by (simp add: predict_json_cases)
      next
        case False
        obtain es where "new_events g (snd (predict_text w g message)) = Inferred message # es"
          "\<forall>m. Inferred m \<notin> set es"
          using predict_text_new_events by blast
        then have "msg = message" using i Inr False by (auto simp: predict_json_cases)
        then show ?thesis using False json_message_stripped [OF Inr] by simp
      qed
    qed
  qed
  have p4: ?form_inferred
  proof (intro allI impI)
    fix msg
    assume i: "Inferred msg \<in> set (new_events g (snd (predict_form w g field)))"
    define message where "message = py_strip (case field of None \<Rightarrow> [] | Some s \<Rightarrow> s)"
    show "msg \<noteq> [] \<and> py_strip msg \<noteq> []"
    proof (cases "message = []")
      case True
      then show ?thesis using i by (simp add: predict_form_cases Let_def message_def)
    next
      case False
      obtain es where "new_events g (snd (predict_text w g message)) = Inferred message # es"
        "\<forall>m. Inferred m \<notin> set es"
        using predict_text_new_events by blast
      then have "msg = message" using i False
        by (auto simp: predict_form_cases Let_def message_def [symmetric])
      then show ?thesis using False by (simp add: message_def py_strip_idem)
    qed
  qed
  show ?thesis by (intro conjI) (rule p1, rule p2, rule p3, rule p4)
qed

theorem predict_json_rejects_empty_message_witness:
  "predict_json good_disk cold (Some (JObj [(''message'', JStr ''   '')])) =
     (\<lparr>status = 400,
       body = JsonBody
         [(''error'', JStr ''Field 'message' is required and must be non-empty.'')]\<rparr>, cold)
   \<and> predict_json good_disk cold (Some (JObj [(''text'', JStr ''hi'')])) =
     (\<lparr>status = 400,
       body = JsonBody
         [(''error'', JStr ''Field 'message' is required and must be non-empty.'')]\<rparr>, cold)
   \<and> status (fst (predict_form good_disk cold (Some ''  ''))) = 400"
  using predict_json_rejects_empty_message
      [where parsed = "Some (JObj [(''message'', JStr ''   '')])" and w = good_disk and g = cold
        and field = "Some ''  ''"]
    predict_json_rejects_empty_message
      [where parsed = "Some (JObj [(''text'', JStr ''hi'')])" and w = good_disk and g = cold
        and field = None]
  by (simp add: str_json_def py_strip_def py_isspace_def)

lemma predict_json_non_object_body:
  assumes "truthy j" and "\<forall>kvs. j \<noteq> JObj kvs"
  shows "predict_json w g (Some j) = (\<lparr>status = 500, body = InternalServerError\<rparr>, g)"
  using assms by (cases j) (simp_all add: predict_json_def json_message_def)

text \<open>
  C7: a POST /predict request without a \<open>message\<close> field is to be answered 400 with the body
  \<open>{"error": "Field 'message' is required and must be non-empty."}\<close>. The request whose JSON
  body is the list \<open>[1]\<close> has no such field, and the code does not answer it 400: line 193
  keeps the list (it is truthy, so \<open>or {}\<close> does not replace it), \<open>.get\<close> on line 194 raises
  \<open>AttributeError\<close> before the emptiness check and outside the \<open>try\<close>, and the answer is
  Flask's 500 page. The same holds for the bodies \<open>"abc"\<close>, \<open>5\<close>, \<open>1.5\<close> and \<open>true\<close>. The empty
  list \<open>[]\<close>, which is falsy, is answered 400.
\<close>

theorem predict_json_list_body:
  "predict_json good_disk cold (Some (JArr [JInt 1])) =
     (\<lparr>status = 500, body = InternalServerError\<rparr>, cold)
   \<and> json_message (Some (JArr [JInt 1])) = Inl AttributeError
   \<and> status (fst (predict_json good_disk cold (Some (JStr ''abc'')))) = 500
   \<and> status (fst (predict_json good_disk cold (Some (JInt 5)))) = 500
   \<and> status (fst (predict_json good_disk cold (Some (JFloat (PyFinite False 15 (- 1)))))) = 500
   \<and> status (fst (predict_json good_disk cold (Some (JBool True)))) = 500
   \<and> predict_json good_disk cold (Some (JArr [])) =
     (\<lparr>status = 400,
       body = JsonBody
         [(''error'', JStr ''Field 'message' is required and must be non-empty.'')]\<rparr>, cold)"
  by (simp add: predict_json_def json_message_def str_json_def py_strip_def)

lemma py_strip_bracketed:
  assumes "\<not> py_isspace a" and "\<not> py_isspace b"
  shows "py_strip (a # s @ [b]) = a # s @ [b]"
  using assms by (intro py_strip_fixed) simp_all

lemma float_repr_nospace: "set (float_repr x) \<subseteq> {c. \<not> py_isspace c}"
proof -
  define N where "N = {c. \<not> py_isspace c}"
  have lit: "CHR ''-'' \<in> N" "CHR ''+'' \<in> N" "CHR ''.'' \<in> N" "CHR ''e'' \<in> N"
    "CHR ''0'' \<in> N" "CHR ''n'' \<in> N" "CHR ''a'' \<in> N" "CHR ''i'' \<in> N" "CHR ''f'' \<in> N"
    by (simp_all add: N_def py_isspace_def)
  have d: "set (str_nat k) \<subseteq> N" for k
    using str_nat_digits [of k] digit_not_space unfolding N_def by blast
  have ne: "str_nat k \<noteq> []" for k using str_nat_digits [of k] by simp
  have h: "hd (str_nat k) \<in> N" for k
    using d [of k] ne [of k] hd_in_set [of "str_nat k"] by blast
  have t: "set (tl (str_nat k)) \<subseteq> N" for k
    using d [of k] ne [of k] by (cases "str_nat k") auto
  have tk: "set (take j (str_nat k)) \<subseteq> N" for j k
    using d [of k] set_take_subset [of j "str_nat k"] by blast
  have dr: "set (drop j (str_nat k)) \<subseteq> N" for j k
    using d [of k] set_drop_subset [of j "str_nat k"] by blast
  have r: "set (replicate j CHR ''0'') \<subseteq> N" for j
    using lit(5) by auto
  have "set (float_repr x) \<subseteq> N"
  proof (cases x)
    case PyNaN
    then show ?thesis using lit by (simp add: float_repr_def)
  next
    case (PyInf neg)
    then show ?thesis using lit by (simp add: float_repr_def)
  next
    case (PyFinite neg m e)
    show ?thesis
      unfolding PyFinite float_repr_def pyfloat.case Let_def
      using lit d h t tk dr r
      by (simp only: set_append set_simps Un_subset_iff insert_subset empty_subsetI
          if_distrib [of set] if_distrib [of "\<lambda>A. A \<subseteq> N"] simp_thms split: if_split)
  qed
  then show ?thesis by (simp add: N_def)
qed


lemma float_repr_nonempty: "float_repr x \<noteq> []"
  by (cases x) (simp_all add: float_repr_def Let_def)

lemma py_strip_solid:
  assumes "s \<noteq> []" and "set s \<subseteq> {c. \<not> py_isspace c}"
  shows "py_strip s = s"
proof (rule py_strip_fixed)
  show "s \<noteq> []" by (rule assms(1))
  show "\<not> py_isspace (hd s)" using assms hd_in_set [of s] by blast
  show "\<not> py_isspace (last s)" using assms last_in_set [of s] by blast
qed

lemma float_repr_strip: "py_strip (float_repr x) = float_repr x \<and> float_repr x \<noteq> []"
  using py_strip_solid [OF float_repr_nonempty float_repr_nospace] float_repr_nonempty
  by blast

lemma str_json_non_string_strip:
  assumes "\<forall>s. v \<noteq> JStr s"
  shows "py_strip (str_json v) = str_json v \<and> str_json v \<noteq> []"
proof (cases v)
  case JNull
  have "py_strip ''None'' = ''None''" by (simp add: py_strip_def py_isspace_def)
  then show ?thesis using JNull by (simp add: str_json_def)
next
  case (JBool b)
  have "py_strip ''True'' = ''True''" "py_strip ''False'' = ''False''"
    by (simp_all add: py_strip_def py_isspace_def)
  then show ?thesis using JBool by (simp add: str_json_def)
next
  case (JInt i)
  then show ?thesis using str_int_strip [of i] by (simp add: str_json_def)
next
  case (JFloat x)
  then show ?thesis using float_repr_strip [of x] by (simp add: str_json_def)
next
  case (JStr s)
  then show ?thesis using assms by simp
next
  case (JArr xs)
  define items where "items = py_join '', '' (map repr_json xs)"
  have "py_strip (CHR ''['' # items @ [CHR '']'']) = CHR ''['' # items @ [CHR '']'']"
    by (rule py_strip_bracketed) (simp_all add: py_isspace_def)
  then show ?thesis using JArr by (simp add: str_json_def items_def)
next
  case (JObj kvs)
  define items where
    "items = py_join '', '' (map (\<lambda>kv. repr_str (fst kv) @ '': '' @ repr_json (snd kv)) kvs)"
  have "py_strip (CHR ''{'' # items @ [CHR ''}'']) = CHR ''{'' # items @ [CHR ''}'']"
    by (rule py_strip_bracketed) (simp_all add: py_isspace_def)
  then show ?thesis using JObj by (simp add: str_json_def items_def)
qed

text \<open>
  C9: a value of \<open>message\<close> that is not a string (null, a boolean, an integer, a float, a
  list or a dict) is not rejected: it is turned into text by \<open>str()\<close>, which for these
  values is their \<open>repr\<close> (null becomes \<open>None\<close>, a boolean \<open>True\<close> or \<open>False\<close>, a number its
  numeral); the text is not empty and has no whitespace at its ends, so it passes the
  emptiness check and is passed to \<open>_predict_text\<close>; the request is answered exactly as the
  request that carries that text as a string, and never with 400.
\<close>

theorem predict_json_coerces_non_string:
  assumes "map_of kvs ''message'' = Some v" and "\<forall>s. v \<noteq> JStr s"
  shows "json_message (Some (JObj kvs)) = Inr (str_json v)
     \<and> str_json v \<noteq> []
     \<and> str_json v = repr_json v
     \<and> (v = JNull \<longrightarrow> str_json v = ''None'')
     \<and> (\<forall>b. v = JBool b \<longrightarrow> str_json v = (if b then ''True'' else ''False''))
     \<and> (\<forall>i. v = JInt i \<longrightarrow> str_json v = str_int i)
     \<and> (\<forall>x. v = JFloat x \<longrightarrow> str_json v = float_repr x)
     \<and> status (fst (predict_json w g (Some (JObj kvs)))) \<noteq> 400
     \<and> hd (new_events g (snd (predict_json w g (Some (JObj kvs))))) = Inferred (str_json v)
     \<and> predict_json w g (Some (JObj kvs))
         = predict_json w g (Some (JObj [(''message'', JStr (str_json v))]))"
proof -
  have ne: "kvs \<noteq> []" using assms(1) by auto
  note s = str_json_non_string_strip [OF assms(2)]
  have jm: "json_message (Some (JObj kvs)) = Inr (str_json v)"
    using assms(1) s by (simp add: json_message_object [OF ne])
  have jm': "json_message (Some (JObj [(''message'', JStr (str_json v))])) = Inr (str_json v)"
    using s by (simp add: json_message_def str_json_def)
  obtain es where es: "new_events g (snd (predict_text w g (str_json v)))
      = Inferred (str_json v) # es"
    using predict_text_new_events by blast
  have st: "status (fst (predict_json w g (Some (JObj kvs)))) \<noteq> 400"
    using s by (simp add: predict_json_cases jm split: sum.splits)
  have hd: "hd (new_events g (snd (predict_json w g (Some (JObj kvs))))) = Inferred (str_json v)"
    using s es by (simp add: predict_json_cases jm)
  have eq: "predict_json w g (Some (JObj kvs))
         = predict_json w g (Some (JObj [(''message'', JStr (str_json v))]))"
    by (simp only: predict_json_cases jm jm')
  have forms: "(v = JNull \<longrightarrow> str_json v = ''None'')
     \<and> (\<forall>b. v = JBool b \<longrightarrow> str_json v = (if b then ''True'' else ''False''))
     \<and> (\<forall>i. v = JInt i \<longrightarrow> str_json v = str_int i)
     \<and> (\<forall>x. v = JFloat x \<longrightarrow> str_json v = float_repr x)"
    by (auto simp: str_json_def)
  have rp: "str_json v = repr_json v"
    using assms(2) by (cases v) (simp_all add: str_json_def)
  show ?thesis using jm s st hd eq forms rp by blast
qed

theorem predict_json_coerces_non_string_witness:
  "fst (predict_json good_disk cold (Some (JObj [(''message'', JNull)])))
     = \<lparr>status = 200, body = JsonBody [(''label'', JStr ''FAKE'')]\<rparr>
   \<and> hd (new_events cold (snd (predict_json good_disk cold (Some (JObj [(''message'', JNull)])))))
     = Inferred ''None''
   \<and> json_message (Some (JObj [(''message'', JInt 7)])) = Inr ''7''
   \<and> json_message (Some (JObj [(''message'', JFloat (PyFinite False 15 (- 1)))])) = Inr ''1.5''
   \<and> json_message (Some (JObj [(''message'', JFloat (PyFinite False 1 2))])) = Inr ''100.0''
   \<and> json_message (Some (JObj [(''message'', JArr [JStr ''a''])])) = Inr ''['a']''
   \<and> fst (predict_json good_disk cold (Some (JObj [(''message'', JArr [JStr ''a''])])))
     = \<lparr>status = 200, body = JsonBody [(''label'', JStr ''FAKE'')]\<rparr>
   \<and> json_message (Some (JObj [(''message'', JObj [])])) = Inr ''{}''"
proof -
  have a: "map_of [(''message'', v)] ''message'' = Some v" for v :: json by simp
  have n: "\<forall>s. JNull \<noteq> JStr s" by simp
  have i: "\<forall>s. JInt 7 \<noteq> JStr s" by simp
  have f: "\<forall>s. JFloat x \<noteq> JStr s" for x by simp
  have l: "\<forall>s. JArr xs \<noteq> JStr s" for xs by simp
  have d: "\<forall>s. JObj kvs \<noteq> JStr s" for kvs by simp
  have sn: "str_json JNull = ''None''" by (simp add: str_json_def)
  have si: "str_json (JInt 7) = ''7''"
    by (simp add: str_json_def str_int_def str_nat.simps)
  have sf: "str_json (JFloat (PyFinite False 15 (- 1))) = ''1.5''"
    by (simp add: str_json_def float_repr_def str_nat.simps Let_def)
  have sg: "str_json (JFloat (PyFinite False 1 2)) = ''100.0''"
    by (simp add: str_json_def float_repr_def str_nat.simps Let_def numeral_2_eq_2)
  have sl: "str_json (JArr [JStr ''a'']) = ''['a']''"
    by (simp add: str_json_def repr_str_def repr_char_def py_isprintable_def Let_def)
  have sd: "str_json (JObj []) = ''{}''" by (simp add: str_json_def)
  have r1: "fst (predict_json good_disk cold (Some (JObj [(''message'', JStr ''None'')])))
     = \<lparr>status = 200, body = JsonBody [(''label'', JStr ''FAKE'')]\<rparr>"
    by (simp add: predict_json_def json_message_def str_json_def py_strip_def py_isspace_def
        predict_text_def load_artifacts_once_def load_locked_def read_pickle_def infer_def
        call_transform_def call_predict_def good_disk_def disk_def pickles_def
        stub_classifier_def stub_vectorizer_def)
  have r2: "fst (predict_json good_disk cold (Some (JObj [(''message'', JStr ''['a']'')])))
     = \<lparr>status = 200, body = JsonBody [(''label'', JStr ''FAKE'')]\<rparr>"
    by (simp add: predict_json_def json_message_def str_json_def py_strip_def py_isspace_def
        predict_text_def load_artifacts_once_def load_locked_def read_pickle_def infer_def
        call_transform_def call_predict_def good_disk_def disk_def pickles_def
        stub_classifier_def stub_vectorizer_def)
  have 1: "predict_json good_disk cold (Some (JObj [(''message'', JNull)]))
      = predict_json good_disk cold (Some (JObj [(''message'', JStr ''None'')]))"
    and 2: "hd (new_events cold
        (snd (predict_json good_disk cold (Some (JObj [(''message'', JNull)])))))
      = Inferred ''None''"
    using predict_json_coerces_non_string [OF a n, where w = good_disk and g = cold]
    unfolding sn by blast+
  have 3: "json_message (Some (JObj [(''message'', JInt 7)])) = Inr ''7''"
    using predict_json_coerces_non_string [OF a i, where w = good_disk and g = cold]
    unfolding si by blast
  have 4: "json_message (Some (JObj [(''message'', JFloat (PyFinite False 15 (- 1)))])) = Inr ''1.5''"
    using predict_json_coerces_non_string
        [OF a f [of "PyFinite False 15 (- 1)"], where w = good_disk and g = cold]
    unfolding sf by blast
  have 5: "json_message (Some (JObj [(''message'', JFloat (PyFinite False 1 2))])) = Inr ''100.0''"
    using predict_json_coerces_non_string
        [OF a f [of "PyFinite False 1 2"], where w = good_disk and g = cold]
    unfolding sg by blast
  have 6: "json_message (Some (JObj [(''message'', JArr [JStr ''a''])])) = Inr ''['a']''"
    and 7: "predict_json good_disk cold (Some (JObj [(''message'', JArr [JStr ''a''])]))
      = predict_json good_disk cold (Some (JObj [(''message'', JStr ''['a']'')]))"
    using predict_json_coerces_non_string
        [OF a l [of "[JStr ''a'']"], where w = good_disk and g = cold]
    unfolding sl by blast+
  have 8: "json_message (Some (JObj [(''message'', JObj [])])) = Inr ''{}''"
    using predict_json_coerces_non_string
        [OF a d [of "[]"], where w = good_disk and g = cold]
    unfolding sd by blast
  have c1: "fst (predict_json good_disk cold (Some (JObj [(''message'', JNull)])))
     = \<lparr>status = 200, body = JsonBody [(''label'', JStr ''FAKE'')]\<rparr>"
    by (simp only: 1 r1)
  have c7: "fst (predict_json good_disk cold (Some (JObj [(''message'', JArr [JStr ''a''])])))
     = \<lparr>status = 200, body = JsonBody [(''label'', JStr ''FAKE'')]\<rparr>"
    by (simp only: 7 r2)
  show ?thesis by (intro conjI) (rule c1 2 3 4 5 6 c7 8)+
qed

subsection \<open>Status of a request whose load attempt fails\<close>

lemma load_fst_trace_irrelevant:
  "fst (load_artifacts_once w (g\<lparr>trace := t\<rparr>)) = fst (load_artifacts_once w g)"
  by (simp add: load_artifacts_once_def load_locked_def read_pickle_def Let_def emit_def
      split: sum.splits)

lemma load_fst_emit: "fst (load_artifacts_once w (emit ev g)) = fst (load_artifacts_once w g)"
  by (simp add: emit_def load_fst_trace_irrelevant)

lemma predict_text_load_failure:
  "fst (load_artifacts_once w g) = Inl e \<Longrightarrow> fst (predict_text w g message) = Inl e"
  using load_fst_emit [of w "Inferred message" g]
  by (simp add: predict_text_def split_beta split: sum.splits)

lemma load_raises:
  assumes "\<not> both_loaded g"
  shows "fs_open w (MODEL_PATH g) = Inl e \<Longrightarrow> fst (load_artifacts_once w g) = Inl e"
    and "fs_open w (MODEL_PATH g) = Inr bm \<Longrightarrow> pickle_load w bm = Inl e \<Longrightarrow>
           fst (load_artifacts_once w g) = Inl e"
    and "fs_open w (MODEL_PATH g) = Inr bm \<Longrightarrow> pickle_load w bm = Inr m \<Longrightarrow>
           fs_open w (VECTORIZER_PATH g) = Inl e \<Longrightarrow> fst (load_artifacts_once w g) = Inl e"
    and "fs_open w (MODEL_PATH g) = Inr bm \<Longrightarrow> pickle_load w bm = Inr m \<Longrightarrow>
           fs_open w (VECTORIZER_PATH g) = Inr bv \<Longrightarrow> pickle_load w bv = Inl e \<Longrightarrow>
           fst (load_artifacts_once w g) = Inl e"
  using assms
  by (auto simp: both_loaded_def load_artifacts_once_def load_locked_def read_pickle_def emit_def)

text \<open>
  A model file that is present but corrupt: \<open>pickle.load\<close> raises \<open>UnpicklingError\<close>, which only
  the clause \<open>except Exception\<close> catches, and both prediction endpoints answer 500.
\<close>

theorem corrupt_artifact_counterexample:
  "fst (load_artifacts_once corrupt_disk cold) = Inl UnpicklingError
   \<and> fst (predict_json corrupt_disk cold (Some (JObj [(''message'', JStr ''hi'')])))
       = \<lparr>status = 500, body = JsonBody [(''error'', JStr ''Inference failed.'')]\<rparr>
   \<and> status (fst (predict_form corrupt_disk cold (Some ''hi''))) = 500"
  by (simp add: predict_json_def predict_form_def json_message_def str_json_def py_strip_def
      py_isspace_def predict_text_def load_artifacts_once_def load_locked_def read_pickle_def
      corrupt_disk_def disk_def pickles_def Let_def)

text \<open>
  C3, as the code has it: for a request with a non-empty message whose load attempt raises \<open>e\<close>,
  /predict answers 503 with the artifacts-not-found message when \<open>e\<close> is
  \<open>FileNotFoundError\<close> and 500 with the message \<open>Inference failed.\<close> for every other
  exception, and /predict-form answers with the same status. A missing model or vectorizer
  file makes the load raise \<open>FileNotFoundError\<close>; an unreadable or corrupt file makes it
  raise the exception of \<open>open\<close> or of \<open>pickle.load\<close>. GET / answers 200 afterwards.
\<close>

theorem load_failure_status:
  assumes "json_message parsed = Inr message" and "message \<noteq> []"
    and "py_strip (case field of None \<Rightarrow> [] | Some s \<Rightarrow> s) = message"
  shows
    "(fst (load_artifacts_once w g) = Inl e \<longrightarrow>
        fst (predict_json w g parsed) =
          \<lparr>status = (if e = FileNotFoundError then 503 else 500),
            body = JsonBody
              [(''error'', JStr (if e = FileNotFoundError
                                 then ''Model artifacts not found on server.''
                                 else ''Inference failed.''))]\<rparr>
        \<and> status (fst (predict_form w g field)) = (if e = FileNotFoundError then 503 else 500))
     \<and> (\<not> both_loaded g \<and> fs_open w (MODEL_PATH g) = Inl e \<longrightarrow>
          fst (load_artifacts_once w g) = Inl e)
     \<and> (\<not> both_loaded g \<and> fs_open w (MODEL_PATH g) = Inr bm \<and> pickle_load w bm = Inl e \<longrightarrow>
          fst (load_artifacts_once w g) = Inl e)
     \<and> (\<not> both_loaded g \<and> fs_open w (MODEL_PATH g) = Inr bm \<and> pickle_load w bm = Inr m
          \<and> fs_open w (VECTORIZER_PATH g) = Inl e \<longrightarrow>
          fst (load_artifacts_once w g) = Inl e)
     \<and> (\<not> both_loaded g \<and> fs_open w (MODEL_PATH g) = Inr bm \<and> pickle_load w bm = Inr m
          \<and> fs_open w (VECTORIZER_PATH g) = Inr bv \<and> pickle_load w bv = Inl e \<longrightarrow>
          fst (load_artifacts_once w g) = Inl e)
     \<and> status (health (snd (predict_json w g parsed))) = 200
     \<and> status (health (snd (predict_form w g field))) = 200"
proof -
  have a: "fst (predict_json w g parsed) =
          \<lparr>status = (if e = FileNotFoundError then 503 else 500),
            body = JsonBody
              [(''error'', JStr (if e = FileNotFoundError
                                 then ''Model artifacts not found on server.''
                                 else ''Inference failed.''))]\<rparr>
        \<and> status (fst (predict_form w g field)) = (if e = FileNotFoundError then 503 else 500)"
    if "fst (load_artifacts_once w g) = Inl e"
    using predict_text_load_failure [OF that, of message] assms
    by (simp add: predict_json_cases predict_form_cases Let_def)
  have h: "status (health x) = 200" for x by (simp add: health_def)
  show ?thesis using a load_raises [of g w] h by blast
qed

theorem load_failure_status_witness:
  "fst (predict_json empty_disk cold (Some (JObj [(''message'', JStr ''hi'')])))
       = \<lparr>status = 503,
          body = JsonBody [(''error'', JStr ''Model artifacts not found on server.'')]\<rparr>
   \<and> status (fst (predict_form empty_disk cold (Some ''hi''))) = 503
   \<and> status (fst (predict_form no_vectorizer_disk cold (Some ''hi''))) = 503
   \<and> status (fst (predict_form corrupt_disk cold (Some ''hi''))) = 500"
proof -
  have j: "json_message (Some (JObj [(''message'', JStr ''hi'')])) = Inr ''hi''"
    by (simp add: json_message_def str_json_def py_strip_def py_isspace_def)
  have ne: "''hi'' \<noteq> []" by simp
  have f: "py_strip (case Some ''hi'' of None \<Rightarrow> [] | Some s \<Rightarrow> s) = ''hi''"
    by (simp add: py_strip_def py_isspace_def)
  have c: "\<not> both_loaded cold" by (simp add: both_loaded_def)
  have o1: "fs_open empty_disk (MODEL_PATH cold) = Inl FileNotFoundError"
    by (simp add: empty_disk_def disk_def)
  have o2: "fs_open no_vectorizer_disk (MODEL_PATH cold) = Inr ''M''"
    "pickle_load no_vectorizer_disk ''M'' = Inr (Some (stub_classifier (Native (PyStr ''FAKE''))))"
    "fs_open no_vectorizer_disk (VECTORIZER_PATH cold) = Inl FileNotFoundError"
    by (simp_all add: no_vectorizer_disk_def disk_def pickles_def)
  have o3: "fs_open corrupt_disk (MODEL_PATH cold) = Inr ''garbage''"
    "pickle_load corrupt_disk ''garbage'' = Inl UnpicklingError"
    by (simp_all add: corrupt_disk_def disk_def pickles_def)
  note t1 = load_failure_status [OF j ne f, where w = empty_disk and g = cold
      and e = FileNotFoundError]
  note t2 = load_failure_status [OF j ne f, where w = no_vectorizer_disk and g = cold
      and e = FileNotFoundError and bm = "''M''"
      and m = "Some (stub_classifier (Native (PyStr ''FAKE'')))"]
  note t3 = load_failure_status [OF j ne f, where w = corrupt_disk and g = cold
      and e = UnpicklingError and bm = "''garbage''"]
  have l1: "fst (load_artifacts_once empty_disk cold) = Inl FileNotFoundError"
    using t1 c o1 by blast
  have l2: "fst (load_artifacts_once no_vectorizer_disk cold) = Inl FileNotFoundError"
    using t2 c o2 by blast
  have l3: "fst (load_artifacts_once corrupt_disk cold) = Inl UnpicklingError"
    using t3 c o3 by blast
  have "fst (predict_json empty_disk cold (Some (JObj [(''message'', JStr ''hi'')])))
       = \<lparr>status = 503,
          body = JsonBody [(''error'', JStr ''Model artifacts not found on server.'')]\<rparr>
     \<and> status (fst (predict_form empty_disk cold (Some ''hi''))) = 503"
    using t1 l1 by simp
  moreover have "status (fst (predict_form no_vectorizer_disk cold (Some ''hi''))) = 503"
    using t2 l2 by simp
  moreover have "status (fst (predict_form corrupt_disk cold (Some ''hi''))) = 500"
    using t3 l3 by simp
  ultimately show ?thesis by simp
qed

subsection \<open>What an error response prints\<close>




subsection \<open>What a load attempt publishes\<close>

text \<open>
  The model file loads and the vectorizer file is missing: after the lock is released the
  model is published and the vectorizer is absent.
\<close>

theorem partial_load_counterexample:
  "fst (load_artifacts_once no_vectorizer_disk cold) = Inl FileNotFoundError
   \<and> loaded_model (snd (load_artifacts_once no_vectorizer_disk cold))
       = Some (stub_classifier (Native (PyStr ''FAKE'')))
   \<and> vectorizer (snd (load_artifacts_once no_vectorizer_disk cold)) = None
   \<and> trace (snd (load_artifacts_once no_vectorizer_disk cold))
       = [Acquire, Opened ModelFile, Unpickled ModelFile, Release]"
  by (simp add: load_artifacts_once_def load_locked_def read_pickle_def no_vectorizer_disk_def
      disk_def pickles_def emit_def)

text \<open>
  C1, as the code has it: for a load attempt made when the pair is not fully present: when the model
  file cannot be read or deserialized, both globals stay as they were; when both files
  deserialize, both globals are set; when the model file deserializes and the vectorizer
  file does not, the model stays published and the vectorizer stays as it was, so a state
  with only the model present remains after the lock is released. In every case the lock
  is released at the end, the health check and the demo page report loaded exactly when
  both globals are present, and a later call to the loader that finds one of them absent
  takes the lock again.
\<close>

theorem load_outcomes:
  assumes "\<not> both_loaded g" and "load_artifacts_once w g = (r, g')"
  shows
    "(fs_open w (MODEL_PATH g) = Inl e
        \<or> (fs_open w (MODEL_PATH g) = Inr bm \<and> pickle_load w bm = Inl e) \<longrightarrow>
        r = Inl e \<and> loaded_model g' = loaded_model g \<and> vectorizer g' = vectorizer g)
     \<and> (fs_open w (MODEL_PATH g) = Inr bm \<and> pickle_load w bm = Inr m
        \<and> (fs_open w (VECTORIZER_PATH g) = Inl e
            \<or> (fs_open w (VECTORIZER_PATH g) = Inr bv \<and> pickle_load w bv = Inl e)) \<longrightarrow>
        r = Inl e \<and> loaded_model g' = m \<and> vectorizer g' = vectorizer g)
     \<and> (fs_open w (MODEL_PATH g) = Inr bm \<and> pickle_load w bm = Inr m
        \<and> fs_open w (VECTORIZER_PATH g) = Inr bv \<and> pickle_load w bv = Inr v \<longrightarrow>
        r = Inr () \<and> loaded_model g' = m \<and> vectorizer g' = v)
     \<and> last (trace g') = Release
     \<and> body (health g') =
         JsonBody [(''status'', JStr ''ok''),
                   (''model_loaded'', JBool (loaded_model g' \<noteq> None \<and> vectorizer g' \<noteq> None)),
                   (''model_path'', JStr (MODEL_PATH g)),
                   (''vectorizer_path'', JStr (VECTORIZER_PATH g))]
     \<and> body (demo g') =
         HtmlBody \<lparr>model_loaded = (loaded_model g' \<noteq> None \<and> vectorizer g' \<noteq> None),
                    model_path = MODEL_PATH g, prediction = None, error = None,
                    form_message = []\<rparr>
     \<and> (loaded_model g' = None \<or> vectorizer g' = None \<longrightarrow>
          hd (new_events g' (snd (load_artifacts_once w2 g'))) = Acquire)"
proof -
  have g': "g' = snd (load_artifacts_once w g)" and r: "r = fst (load_artifacts_once w g)"
    using assms(2) by simp_all
  have nb: "loaded_model g = None \<or> vectorizer g = None"
    using assms(1) by (auto simp: both_loaded_def)
  have 1: "fs_open w (MODEL_PATH g) = Inl e
        \<or> (fs_open w (MODEL_PATH g) = Inr bm \<and> pickle_load w bm = Inl e) \<longrightarrow>
        r = Inl e \<and> loaded_model g' = loaded_model g \<and> vectorizer g' = vectorizer g"
    using nb unfolding g' r
    by (auto simp: load_artifacts_once_def load_locked_def read_pickle_def emit_def)
  have 2: "fs_open w (MODEL_PATH g) = Inr bm \<and> pickle_load w bm = Inr m
        \<and> (fs_open w (VECTORIZER_PATH g) = Inl e
            \<or> (fs_open w (VECTORIZER_PATH g) = Inr bv \<and> pickle_load w bv = Inl e)) \<longrightarrow>
        r = Inl e \<and> loaded_model g' = m \<and> vectorizer g' = vectorizer g"
    using nb unfolding g' r
    by (auto simp: load_artifacts_once_def load_locked_def read_pickle_def emit_def)
  have 3: "fs_open w (MODEL_PATH g) = Inr bm \<and> pickle_load w bm = Inr m
        \<and> fs_open w (VECTORIZER_PATH g) = Inr bv \<and> pickle_load w bv = Inr v \<longrightarrow>
        r = Inr () \<and> loaded_model g' = m \<and> vectorizer g' = v"
    using nb unfolding g' r
    by (auto simp: load_artifacts_once_def load_locked_def read_pickle_def emit_def)
  have 4: "last (trace g') = Release"
    using nb unfolding g' by (auto simp: load_artifacts_once_def split_beta)
  have 5: "body (health g') =
         JsonBody [(''status'', JStr ''ok''),
                   (''model_loaded'', JBool (loaded_model g' \<noteq> None \<and> vectorizer g' \<noteq> None)),
                   (''model_path'', JStr (MODEL_PATH g)),
                   (''vectorizer_path'', JStr (VECTORIZER_PATH g))]"
    unfolding g' by (simp add: health_def both_loaded_def)
  have 7: "body (demo g') =
         HtmlBody \<lparr>model_loaded = (loaded_model g' \<noteq> None \<and> vectorizer g' \<noteq> None),
                    model_path = MODEL_PATH g, prediction = None, error = None,
                    form_message = []\<rparr>"
    unfolding g' by (simp add: demo_def both_loaded_def)
  have 6: "loaded_model g' = None \<or> vectorizer g' = None \<longrightarrow>
          hd (new_events g' (snd (load_artifacts_once w2 g'))) = Acquire"
  proof
    assume a: "loaded_model g' = None \<or> vectorizer g' = None"
    obtain es where "trace (snd (load_locked w2 (emit Acquire g'))) = trace (emit Acquire g') @ es"
      using load_locked_trace by blast
    then show "hd (new_events g' (snd (load_artifacts_once w2 g'))) = Acquire"
      using a by (auto simp: load_artifacts_once_def split_beta new_events_def)
  qed
  show ?thesis by (intro conjI) (rule 1, rule 2, rule 3, rule 4, rule 5, rule 7, rule 6)
qed

theorem load_outcomes_witness:
  "loaded_model (snd (load_artifacts_once no_vectorizer_disk cold))
       = Some (stub_classifier (Native (PyStr ''FAKE'')))
   \<and> vectorizer (snd (load_artifacts_once no_vectorizer_disk cold)) = None
   \<and> body (health (snd (load_artifacts_once no_vectorizer_disk cold))) =
         JsonBody [(''status'', JStr ''ok''),
                   (''model_loaded'', JBool False),
                   (''model_path'', JStr ''/srv/app/basic_classifier.pkl''),
                   (''vectorizer_path'', JStr ''/srv/app/count_vectorizer.pkl'')]
   \<and> loaded_model (snd (load_artifacts_once empty_disk cold)) = None
   \<and> vectorizer (snd (load_artifacts_once good_disk cold)) = Some stub_vectorizer"
proof -
  have c: "\<not> both_loaded cold" by (simp add: both_loaded_def)
  have s: "load_artifacts_once w cold = (fst (load_artifacts_once w cold),
      snd (load_artifacts_once w cold))" for w by simp
  have o1: "fs_open empty_disk (MODEL_PATH cold) = Inl FileNotFoundError"
    by (simp add: empty_disk_def disk_def)
  have o2: "fs_open no_vectorizer_disk (MODEL_PATH cold) = Inr ''M''"
    "pickle_load no_vectorizer_disk ''M'' = Inr (Some (stub_classifier (Native (PyStr ''FAKE''))))"
    "fs_open no_vectorizer_disk (VECTORIZER_PATH cold) = Inl FileNotFoundError"
    by (simp_all add: no_vectorizer_disk_def disk_def pickles_def)
  have o3: "fs_open good_disk (MODEL_PATH cold) = Inr ''M''"
    "pickle_load good_disk ''M'' = Inr (Some (stub_classifier (Native (PyStr ''FAKE''))))"
    "fs_open good_disk (VECTORIZER_PATH cold) = Inr ''V''"
    "pickle_load good_disk ''V'' = Inr (Some stub_vectorizer)"
    by (simp_all add: good_disk_def disk_def pickles_def)
  note t1 = load_outcomes [OF c s, where w = empty_disk and e = FileNotFoundError]
  note t2 = load_outcomes [OF c s, where w = no_vectorizer_disk and e = FileNotFoundError
      and bm = "''M''" and m = "Some (stub_classifier (Native (PyStr ''FAKE'')))"]
  note t3 = load_outcomes [OF c s, where w = good_disk and bm = "''M''" and bv = "''V''"
      and m = "Some (stub_classifier (Native (PyStr ''FAKE'')))" and v = "Some stub_vectorizer"]
  have a1: "loaded_model (snd (load_artifacts_once empty_disk cold)) = None"
    using t1 o1 by simp
  have a2: "loaded_model (snd (load_artifacts_once no_vectorizer_disk cold))
       = Some (stub_classifier (Native (PyStr ''FAKE'')))
     \<and> vectorizer (snd (load_artifacts_once no_vectorizer_disk cold)) = None"
    using t2 o2 by simp
  have a3: "vectorizer (snd (load_artifacts_once good_disk cold)) = Some stub_vectorizer"
    using t3 o3 by simp
  have a4: "body (health (snd (load_artifacts_once no_vectorizer_disk cold))) =
         JsonBody [(''status'', JStr ''ok''),
                   (''model_loaded'', JBool False),
                   (''model_path'', JStr ''/srv/app/basic_classifier.pkl''),
                   (''vectorizer_path'', JStr ''/srv/app/count_vectorizer.pkl'')]"
    using t2 a2 by simp
  show ?thesis using a1 a2 a3 a4 by simp
qed

subsection \<open>Concurrent cold start\<close>

lemma thread_step_decreases:
  "thread_step w i p g l = Some (p', g', l') \<Longrightarrow> steps_left p' < steps_left p"
  by (cases p) (auto simp: thread_step_def split: if_splits prod.splits sum.splits)

lemma length_step [simp]: "length (threads (step w s i)) = length (threads s)"
  by (simp add: step_def split: option.splits)

lemma length_exec [simp]: "length (threads (exec w sched s)) = length (threads s)"
  unfolding exec_def by (induction sched arbitrary: s) simp_all

lemma exec_Nil [simp]: "exec w [] s = s"
  by (simp add: exec_def)

lemma exec_Cons [simp]: "exec w (i # sched) s = exec w sched (step w s i)"
  by (simp add: exec_def)

lemma exec_append: "exec w (xs @ ys) s = exec w ys (exec w xs s)"
  by (simp add: exec_def)

lemma remaining_step:
  assumes "i < length (threads s)"
    and "thread_step w i (threads s ! i) (shared s) (lock s) = Some (p, g, l)"
  shows "remaining (step w s i) < remaining s"
proof -
  have d: "steps_left p < steps_left (threads s ! i)"
    using assms(2) by (rule thread_step_decreases)
  have "sum_list ((map steps_left (threads s))[i := steps_left p])
      = sum_list (map steps_left (threads s)) + steps_left p - (map steps_left (threads s)) ! i"
    using assms(1) by (simp add: sum_list_update)
  moreover have "(map steps_left (threads s)) ! i \<le> sum_list (map steps_left (threads s))"
    using assms(1) by (simp add: member_le_sum_list)
  ultimately show ?thesis
    using assms d by (simp add: remaining_def step_def map_update)
qed

lemma step_cases:
  "step w s i = s \<or> remaining (step w s i) < remaining s"
proof (cases "i < length (threads s)")
  case False
  then show ?thesis by (simp add: step_def)
next
  case True
  show ?thesis
  proof (cases "thread_step w i (threads s ! i) (shared s) (lock s)")
    case None
    then show ?thesis using True by (simp add: step_def)
  next
    case (Some r)
    then show ?thesis using True remaining_step [of i s w] by (cases r) auto
  qed
qed

lemma remaining_exec: "remaining (exec w sched s) \<le> remaining s"
proof (induction sched arbitrary: s)
  case Nil
  then show ?case by simp
next
  case (Cons i sched)
  have "remaining (step w s i) \<le> remaining s"
    using step_cases [of w s i] by auto
  then show ?case using Cons [of "step w s i"] by simp
qed

lemma exec_stuck:
  "remaining (exec w sched s) = remaining s \<Longrightarrow> \<forall>i \<in> set sched. step w s i = s"
proof (induction sched)
  case Nil
  then show ?case by simp
next
  case (Cons i sched)
  have "step w s i = s"
  proof (rule ccontr)
    assume "step w s i \<noteq> s"
    then have "remaining (step w s i) < remaining s" using step_cases [of w s i] by auto
    then show False using remaining_exec [of w sched "step w s i"] Cons.prems by simp
  qed
  then show ?case using Cons by simp
qed

lemma thread_step_lock:
  assumes "thread_step w i p g l = Some (p', g', l')"
  shows "(holds_lock p \<and> holds_lock p' \<and> l' = l)
       \<or> (holds_lock p \<and> \<not> holds_lock p' \<and> l' = None)
       \<or> (\<not> holds_lock p \<and> \<not> holds_lock p' \<and> l' = l)
       \<or> (\<not> holds_lock p \<and> holds_lock p' \<and> l = None \<and> l' = Some i)"
  using assms
  by (cases p) (auto simp: thread_step_def split: if_splits prod.splits sum.splits)


lemma lock_invI:
  assumes "\<And>j. j < length ts \<Longrightarrow> holds_lock (ts ! j) \<Longrightarrow> l = Some j"
    and "\<And>j. l = Some j \<Longrightarrow> j < length ts \<and> holds_lock (ts ! j)"
  shows "lock_inv \<lparr>shared = g, lock = l, threads = ts\<rparr>"
  unfolding lock_inv_def process.select_convs using assms by blast

lemma lock_inv_step:
  assumes "lock_inv s"
  shows "lock_inv (step w s i)"
proof (cases "i < length (threads s)")
  case False
  then show ?thesis using assms by (simp add: step_def)
next
  case True
  show ?thesis
  proof (cases "thread_step w i (threads s ! i) (shared s) (lock s)")
    case None
    then show ?thesis using assms True by (simp add: step_def)
  next
    case (Some r)
    obtain p g l where r: "r = (p, g, l)" by (cases r)
    have st: "step w s i = \<lparr>shared = g, lock = l, threads = (threads s)[i := p]\<rparr>"
      using True Some r by (simp add: step_def)
    have h1: "lock s = Some j" if "j < length (threads s)" "holds_lock (threads s ! j)" for j
      using assms that unfolding lock_inv_def by blast
    have h2: "j < length (threads s) \<and> holds_lock (threads s ! j)" if "lock s = Some j" for j
      using assms that unfolding lock_inv_def by blast
    from thread_step_lock [OF Some [unfolded r]]
    consider "holds_lock (threads s ! i)" "holds_lock p" "l = lock s"
      | "holds_lock (threads s ! i)" "\<not> holds_lock p" "l = None"
      | "\<not> holds_lock (threads s ! i)" "\<not> holds_lock p" "l = lock s"
      | "\<not> holds_lock (threads s ! i)" "holds_lock p" "lock s = None" "l = Some i"
      by argo
    then show ?thesis
    proof cases
      case 1
      have li: "lock s = Some i" using h1 [OF True 1(1)] .
      show ?thesis unfolding st
      proof (rule lock_invI)
        fix j assume "j < length ((threads s)[i := p])" "holds_lock ((threads s)[i := p] ! j)"
        then show "l = Some j" using 1 li h1 [of j] by (cases "j = i") simp_all
      next
        fix j assume "l = Some j"
        then show "j < length ((threads s)[i := p]) \<and> holds_lock ((threads s)[i := p] ! j)"
          using 1 li True by simp
      qed
    next
      case 2
      have li: "lock s = Some i" using h1 [OF True 2(1)] .
      show ?thesis unfolding st
      proof (rule lock_invI)
        fix j assume "j < length ((threads s)[i := p])" "holds_lock ((threads s)[i := p] ! j)"
        then show "l = Some j" using 2 li h1 [of j] by (cases "j = i") simp_all
      next
        fix j assume "l = Some j"
        then show "j < length ((threads s)[i := p]) \<and> holds_lock ((threads s)[i := p] ! j)"
          using 2 by simp
      qed
    next
      case 3
      show ?thesis unfolding st
      proof (rule lock_invI)
        fix j assume "j < length ((threads s)[i := p])" "holds_lock ((threads s)[i := p] ! j)"
        then show "l = Some j" using 3 h1 [of j] by (cases "j = i") simp_all
      next
        fix j assume "l = Some j"
        then have "lock s = Some j" using 3 by simp
        then have "j < length (threads s) \<and> holds_lock (threads s ! j)" by (rule h2)
        then show "j < length ((threads s)[i := p]) \<and> holds_lock ((threads s)[i := p] ! j)"
          using 3 by (cases "j = i") simp_all
      qed
    next
      case 4
      show ?thesis unfolding st
      proof (rule lock_invI)
        fix j assume a: "j < length ((threads s)[i := p])" "holds_lock ((threads s)[i := p] ! j)"
        have "j = i"
        proof (rule ccontr)
          assume "j \<noteq> i"
          then have "lock s = Some j" using a h1 [of j] by simp
          then show False using 4 by simp
        qed
        then show "l = Some j" using 4 by simp
      next
        fix j assume "l = Some j"
        then show "j < length ((threads s)[i := p]) \<and> holds_lock ((threads s)[i := p] ! j)"
          using 4 True by simp
      qed
    qed
  qed
qed

lemma lock_inv_exec: "lock_inv s \<Longrightarrow> lock_inv (exec w sched s)"
  by (induction sched arbitrary: s) (simp_all add: lock_inv_step)


lemma lock_inv_spawn: "lock_inv (spawn n g)"
  by (simp add: lock_inv_def spawn_def)


lemma thread_step_enabled:
  "thread_step w i p g l = None \<longleftrightarrow> finished p \<or> (p = WaitLock \<and> l \<noteq> None)"
  by (cases p) (auto simp: thread_step_def split: prod.splits sum.splits)


lemma step_moves:
  assumes "i < length (threads s)"
    and "thread_step w i (threads s ! i) (shared s) (lock s) \<noteq> None"
  shows "step w s i \<noteq> s"
proof -
  obtain p g l where "thread_step w i (threads s ! i) (shared s) (lock s) = Some (p, g, l)"
    using assms(2) by auto
  then have "remaining (step w s i) < remaining s" using assms(1) by (rule remaining_step [rotated])
  then show ?thesis by auto
qed


lemma no_deadlock:
  assumes "lock_inv s" and "j < length (threads s)" and "\<not> finished (threads s ! j)"
  shows "\<exists>i < length (threads s). step w s i \<noteq> s"
proof (cases "lock s")
  case None
  then have "thread_step w j (threads s ! j) (shared s) (lock s) \<noteq> None"
    using assms(3) by (simp add: thread_step_enabled)
  then show ?thesis using assms(2) step_moves by blast
next
  case (Some k)
  then have k: "k < length (threads s)" "holds_lock (threads s ! k)"
    using assms(1) unfolding lock_inv_def by blast+
  then have "thread_step w k (threads s ! k) (shared s) (lock s) \<noteq> None"
    by (cases "threads s ! k") (auto simp: thread_step_enabled)
  then show ?thesis using k(1) step_moves by blast
qed


lemma all_finished_remaining:
  "(\<forall>i < length (threads s). finished (threads s ! i)) \<longleftrightarrow> remaining s = 0"
proof -
  have "steps_left p = 0 \<longleftrightarrow> finished p" for p by (cases p) simp_all
  then show ?thesis
    by (auto simp: remaining_def all_set_conv_all_nth)
qed


lemma round_progress:
  assumes "lock_inv s" and "remaining s \<noteq> 0" and "n = length (threads s)"
  shows "remaining (exec w [0..<n] s) < remaining s"
proof (rule ccontr)
  assume "\<not> remaining (exec w [0..<n] s) < remaining s"
  then have "remaining (exec w [0..<n] s) = remaining s"
    using remaining_exec [of w "[0..<n]" s] by simp
  then have "\<forall>i < n. step w s i = s" using exec_stuck [of w "[0..<n]" s] by simp
  moreover obtain j where "j < length (threads s)" "\<not> finished (threads s ! j)"
    using assms(2) all_finished_remaining [of s] by auto
  ultimately show False using no_deadlock [OF assms(1), of j w] assms(3) by auto
qed


lemma round_robin_finishes:
  assumes "lock_inv s" and "remaining s \<le> k" and "n = length (threads s)"
  shows "remaining (exec w (round_robin n k) s) = 0"
  using assms
proof (induction k arbitrary: s)
  case 0
  then show ?case by (simp add: round_robin_def)
next
  case (Suc k)
  define s1 where "s1 = exec w [0..<n] s"
  have e: "exec w (round_robin n (Suc k)) s = exec w (round_robin n k) s1"
    by (simp add: round_robin_def exec_append s1_def)
  have "remaining s1 \<le> k"
  proof (cases "remaining s = 0")
    case True
    then show ?thesis using remaining_exec [of w "[0..<n]" s] by (simp add: s1_def)
  next
    case False
    then show ?thesis using round_progress [OF Suc.prems(1) False Suc.prems(3), of w] Suc.prems(2)
      by (simp add: s1_def)
  qed
  moreover have "lock_inv s1" using Suc.prems(1) by (simp add: s1_def lock_inv_exec)
  moreover have "n = length (threads s1)" using Suc.prems(3) by (simp add: s1_def)
  ultimately show ?case using Suc.IH [of s1] e by simp
qed


lemma remaining_spawn: "remaining (spawn n g) = 8 * n"
  by (induction n) (simp_all add: remaining_def spawn_def)

lemma pc_ok_cong:
  "loaded_model g' = loaded_model g \<Longrightarrow> vectorizer g' = vectorizer g \<Longrightarrow> pc_ok g' p = pc_ok g p"
  by (cases p) simp_all

lemma pc_ok_free: "\<not> holds_lock p \<Longrightarrow> \<not> finished p \<Longrightarrow> pc_ok g p"
  by (cases p) simp_all

lemma is_loader_finished: "\<not> holds_lock p \<Longrightarrow> \<not> finished p \<Longrightarrow> \<not> is_loader p"
  by (cases p) simp_all

lemma load_invI:
  assumes "MODEL_PATH g = MODEL_PATH g0" and "VECTORIZER_PATH g = VECTORIZER_PATH g0"
    and "count_event (Unpickled ModelFile) g
          = count_event (Unpickled ModelFile) g0 + (if loaded_model g = None then 0 else 1)"
    and "count_event (Unpickled VectorizerFile) g
          = count_event (Unpickled VectorizerFile) g0 + (if vectorizer g = None then 0 else 1)"
    and "vectorizer g \<noteq> None \<longrightarrow> loaded_model g \<noteq> None"
    and "\<forall>j < length ts. pc_ok g (ts ! j)"
    and "loaded_model g \<noteq> None \<and> vectorizer g = None \<longrightarrow> (\<exists>j < length ts. ts ! j = LoadVectorizer)"
    and "vectorizer g = None \<longrightarrow> (\<forall>j < length ts. \<not> is_loader (ts ! j))"
    and "vectorizer g \<noteq> None \<longrightarrow>
           (\<exists>k < length ts. \<forall>j < length ts. is_loader (ts ! j) = (j = k))"
  shows "load_inv g0 \<lparr>shared = g, lock = l, threads = ts\<rparr>"
  unfolding load_inv_def process.select_convs
  by (intro conjI) (rule assms)+

lemma load_invD:
  assumes "load_inv g0 s"
  shows "MODEL_PATH (shared s) = MODEL_PATH g0" and "VECTORIZER_PATH (shared s) = VECTORIZER_PATH g0"
    and "count_event (Unpickled ModelFile) (shared s)
          = count_event (Unpickled ModelFile) g0 + (if loaded_model (shared s) = None then 0 else 1)"
    and "count_event (Unpickled VectorizerFile) (shared s)
          = count_event (Unpickled VectorizerFile) g0
            + (if vectorizer (shared s) = None then 0 else 1)"
    and "vectorizer (shared s) \<noteq> None \<longrightarrow> loaded_model (shared s) \<noteq> None"
    and "\<forall>j < length (threads s). pc_ok (shared s) (threads s ! j)"
    and "loaded_model (shared s) \<noteq> None \<and> vectorizer (shared s) = None \<longrightarrow>
           (\<exists>j < length (threads s). threads s ! j = LoadVectorizer)"
    and "vectorizer (shared s) = None \<longrightarrow> (\<forall>j < length (threads s). \<not> is_loader (threads s ! j))"
    and "vectorizer (shared s) \<noteq> None \<longrightarrow>
           (\<exists>k < length (threads s). \<forall>j < length (threads s). is_loader (threads s ! j) = (j = k))"
  using assms unfolding load_inv_def by blast+

text \<open>A step that leaves the two artifacts and the count of deserializations as they are.\<close>

lemma load_inv_quiet_step:
  assumes inv: "load_inv g0 s" and i: "i < length (threads s)"
    and g: "MODEL_PATH g = MODEL_PATH (shared s)" "VECTORIZER_PATH g = VECTORIZER_PATH (shared s)"
      "loaded_model g = loaded_model (shared s)" "vectorizer g = vectorizer (shared s)"
      "count_event (Unpickled ModelFile) g = count_event (Unpickled ModelFile) (shared s)"
      "count_event (Unpickled VectorizerFile) g = count_event (Unpickled VectorizerFile) (shared s)"
    and p: "pc_ok (shared s) p" "is_loader p = is_loader (threads s ! i)"
      "threads s ! i \<noteq> LoadVectorizer"
  shows "load_inv g0 \<lparr>shared = g, lock = l, threads = (threads s)[i := p]\<rparr>"
proof (rule load_invI)
  note d = load_invD [OF inv]
  show "MODEL_PATH g = MODEL_PATH g0" "VECTORIZER_PATH g = VECTORIZER_PATH g0"
    using d(1,2) g(1,2) by simp_all
  show "count_event (Unpickled ModelFile) g
          = count_event (Unpickled ModelFile) g0 + (if loaded_model g = None then 0 else 1)"
    using d(3) g(3,5) by simp
  show "count_event (Unpickled VectorizerFile) g
          = count_event (Unpickled VectorizerFile) g0 + (if vectorizer g = None then 0 else 1)"
    using d(4) g(4,6) by simp
  show "vectorizer g \<noteq> None \<longrightarrow> loaded_model g \<noteq> None"
    using d(5) g(3,4) by simp
  show "\<forall>j < length ((threads s)[i := p]). pc_ok g ((threads s)[i := p] ! j)"
  proof (intro allI impI)
    fix j assume "j < length ((threads s)[i := p])"
    then have j: "j < length (threads s)" by simp
    have "pc_ok (shared s) ((threads s)[i := p] ! j)"
      using d(6) j p(1) i by (cases "j = i") simp_all
    then show "pc_ok g ((threads s)[i := p] ! j)"
      using pc_ok_cong [OF g(3,4)] by simp
  qed
  show "loaded_model g \<noteq> None \<and> vectorizer g = None \<longrightarrow>
      (\<exists>j < length ((threads s)[i := p]). (threads s)[i := p] ! j = LoadVectorizer)"
  proof
    assume "loaded_model g \<noteq> None \<and> vectorizer g = None"
    then obtain j where j: "j < length (threads s)" "threads s ! j = LoadVectorizer"
      using d(7) g(3,4) by auto
    then have "j \<noteq> i" using p(3) by auto
    then have "(threads s)[i := p] ! j = LoadVectorizer" using j by simp
    then show "\<exists>j < length ((threads s)[i := p]). (threads s)[i := p] ! j = LoadVectorizer"
      using j(1) by auto
  qed
  have same: "is_loader ((threads s)[i := p] ! j) = is_loader (threads s ! j)"
    if "j < length (threads s)" for j
    using that p(2) by (cases "j = i") simp_all
  show "vectorizer g = None \<longrightarrow> (\<forall>j < length ((threads s)[i := p]).
      \<not> is_loader ((threads s)[i := p] ! j))"
    using d(8) g(4) same by simp
  show "vectorizer g \<noteq> None \<longrightarrow>
      (\<exists>k < length ((threads s)[i := p]). \<forall>j < length ((threads s)[i := p]).
         is_loader ((threads s)[i := p] ! j) = (j = k))"
    using d(9) g(4) same by simp
qed

lemma count_event_emit:
  "count_event e (emit e' g) = count_event e g + (if e' = e then 1 else 0)"
  by (simp add: count_event_def emit_def)

lemma others_wait:
  assumes "lock_inv s" and "i < length (threads s)" and "holds_lock (threads s ! i)"
    and "j < length (threads s)" and "j \<noteq> i"
  shows "\<not> holds_lock (threads s ! j)"
proof
  assume "holds_lock (threads s ! j)"
  then have "lock s = Some j" using assms(1,4) unfolding lock_inv_def by blast
  moreover have "lock s = Some i" using assms(1,2,3) unfolding lock_inv_def by blast
  ultimately show False using assms(5) by simp
qed

lemma load_inv_load_model:
  assumes inv: "load_inv g0 s" and li: "lock_inv s" and i: "i < length (threads s)"
    and at: "threads s ! i = LoadModel"
    and g: "g = (emit (Unpickled ModelFile) (emit (Opened ModelFile) (shared s)))
                 \<lparr>loaded_model := Some m\<rparr>"
  shows "load_inv g0 \<lparr>shared = g, lock = l, threads = (threads s)[i := LoadVectorizer]\<rparr>"
proof (rule load_invI)
  note d = load_invD [OF inv]
  have none: "loaded_model (shared s) = None" "vectorizer (shared s) = None"
    using d(6) i at by auto
  have other: "\<not> holds_lock (threads s ! j) \<and> \<not> finished (threads s ! j)"
    if "j < length (threads s)" "j \<noteq> i" for j
  proof -
    have "\<not> holds_lock (threads s ! j)"
      using others_wait [OF li i _ that] at by simp
    moreover have "pc_ok (shared s) (threads s ! j)" using d(6) that(1) by simp
    then have "\<not> finished (threads s ! j)" using none by (cases "threads s ! j") simp_all
    ultimately show ?thesis by simp
  qed
  show "MODEL_PATH g = MODEL_PATH g0" "VECTORIZER_PATH g = VECTORIZER_PATH g0"
    using d(1,2) by (simp_all add: g)
  show "count_event (Unpickled ModelFile) g
          = count_event (Unpickled ModelFile) g0 + (if loaded_model g = None then 0 else 1)"
    using d(3) none by (simp add: g count_event_def)
  show "count_event (Unpickled VectorizerFile) g
          = count_event (Unpickled VectorizerFile) g0 + (if vectorizer g = None then 0 else 1)"
    using d(4) none by (simp add: g count_event_def)
  show "vectorizer g \<noteq> None \<longrightarrow> loaded_model g \<noteq> None"
    by (simp add: g)
  show "\<forall>j < length ((threads s)[i := LoadVectorizer]).
      pc_ok g ((threads s)[i := LoadVectorizer] ! j)"
  proof (intro allI impI)
    fix j assume "j < length ((threads s)[i := LoadVectorizer])"
    then have j: "j < length (threads s)" by simp
    show "pc_ok g ((threads s)[i := LoadVectorizer] ! j)"
    proof (cases "j = i")
      case True
      then show ?thesis using i none by (simp add: g)
    next
      case False
      then show ?thesis using other [OF j False] pc_ok_free by simp
    qed
  qed
  show "loaded_model g \<noteq> None \<and> vectorizer g = None \<longrightarrow>
      (\<exists>j < length ((threads s)[i := LoadVectorizer]).
         (threads s)[i := LoadVectorizer] ! j = LoadVectorizer)"
    using i by auto
  show "vectorizer g = None \<longrightarrow> (\<forall>j < length ((threads s)[i := LoadVectorizer]).
      \<not> is_loader ((threads s)[i := LoadVectorizer] ! j))"
  proof (intro allI impI)
    fix j assume "j < length ((threads s)[i := LoadVectorizer])"
    then have j: "j < length (threads s)" by simp
    show "\<not> is_loader ((threads s)[i := LoadVectorizer] ! j)"
      using d(8) none j i by (cases "j = i") simp_all
  qed
  show "vectorizer g \<noteq> None \<longrightarrow>
      (\<exists>k < length ((threads s)[i := LoadVectorizer]).
         \<forall>j < length ((threads s)[i := LoadVectorizer]).
           is_loader ((threads s)[i := LoadVectorizer] ! j) = (j = k))"
    using none by (simp add: g)
qed

lemma load_inv_load_vectorizer:
  assumes inv: "load_inv g0 s" and li: "lock_inv s" and i: "i < length (threads s)"
    and at: "threads s ! i = LoadVectorizer"
    and g: "g = (emit (Unpickled VectorizerFile) (emit (Opened VectorizerFile) (shared s)))
                 \<lparr>vectorizer := Some v\<rparr>"
  shows "load_inv g0 \<lparr>shared = g, lock = l, threads = (threads s)[i := Unlock (Inr Loaded)]\<rparr>"
proof (rule load_invI)
  note d = load_invD [OF inv]
  have st: "loaded_model (shared s) \<noteq> None" "vectorizer (shared s) = None"
    using d(6) i at by auto
  have other: "\<not> holds_lock (threads s ! j) \<and> \<not> finished (threads s ! j)"
    if "j < length (threads s)" "j \<noteq> i" for j
  proof -
    have "\<not> holds_lock (threads s ! j)"
      using others_wait [OF li i _ that] at by simp
    moreover have "pc_ok (shared s) (threads s ! j)" using d(6) that(1) by simp
    then have "\<not> finished (threads s ! j)" using st by (cases "threads s ! j") simp_all
    ultimately show ?thesis by simp
  qed
  show "MODEL_PATH g = MODEL_PATH g0" "VECTORIZER_PATH g = VECTORIZER_PATH g0"
    using d(1,2) by (simp_all add: g)
  show "count_event (Unpickled ModelFile) g
          = count_event (Unpickled ModelFile) g0 + (if loaded_model g = None then 0 else 1)"
    using d(3) st by (simp add: g count_event_def)
  show "count_event (Unpickled VectorizerFile) g
          = count_event (Unpickled VectorizerFile) g0 + (if vectorizer g = None then 0 else 1)"
    using d(4) st by (simp add: g count_event_def)
  show "vectorizer g \<noteq> None \<longrightarrow> loaded_model g \<noteq> None"
    using st by (simp add: g)
  show "\<forall>j < length ((threads s)[i := Unlock (Inr Loaded)]).
      pc_ok g ((threads s)[i := Unlock (Inr Loaded)] ! j)"
  proof (intro allI impI)
    fix j assume "j < length ((threads s)[i := Unlock (Inr Loaded)])"
    then have j: "j < length (threads s)" by simp
    show "pc_ok g ((threads s)[i := Unlock (Inr Loaded)] ! j)"
    proof (cases "j = i")
      case True
      then show ?thesis using i st by (simp add: g)
    next
      case False
      then show ?thesis using other [OF j False] pc_ok_free by simp
    qed
  qed
  show "loaded_model g \<noteq> None \<and> vectorizer g = None \<longrightarrow>
      (\<exists>j < length ((threads s)[i := Unlock (Inr Loaded)]).
         (threads s)[i := Unlock (Inr Loaded)] ! j = LoadVectorizer)"
    by (simp add: g)
  show "vectorizer g = None \<longrightarrow> (\<forall>j < length ((threads s)[i := Unlock (Inr Loaded)]).
      \<not> is_loader ((threads s)[i := Unlock (Inr Loaded)] ! j))"
    by (simp add: g)
  show "vectorizer g \<noteq> None \<longrightarrow>
      (\<exists>k < length ((threads s)[i := Unlock (Inr Loaded)]).
         \<forall>j < length ((threads s)[i := Unlock (Inr Loaded)]).
           is_loader ((threads s)[i := Unlock (Inr Loaded)] ! j) = (j = k))"
  proof
    have "is_loader ((threads s)[i := Unlock (Inr Loaded)] ! j) = (j = i)"
      if "j < length (threads s)" for j
      using d(8) st that i by (cases "j = i") simp_all
    then show "\<exists>k < length ((threads s)[i := Unlock (Inr Loaded)]).
         \<forall>j < length ((threads s)[i := Unlock (Inr Loaded)]).
           is_loader ((threads s)[i := Unlock (Inr Loaded)] ! j) = (j = k)"
      using i by auto
  qed
qed

lemma load_inv_step:
  assumes ok: "fs_open w (MODEL_PATH g0) = Inr bm" "pickle_load w bm = Inr (Some m)"
      "fs_open w (VECTORIZER_PATH g0) = Inr bv" "pickle_load w bv = Inr (Some v)"
    and inv: "load_inv g0 s" and li: "lock_inv s"
  shows "load_inv g0 (step w s i)"
proof (cases "i < length (threads s)")
  case False
  then show ?thesis using inv by (simp add: step_def)
next
  case i: True
  note d = load_invD [OF inv]
  have oki: "pc_ok (shared s) (threads s ! i)" using d(6) i by simp
  note quiet = load_inv_quiet_step [OF inv i]
  show ?thesis
  proof (cases "threads s ! i")
    case FastCheckModel
    have "step w s i = \<lparr>shared = shared s, lock = lock s,
        threads = (threads s)[i := if loaded_model (shared s) \<noteq> None
                                   then FastCheckVectorizer else WaitLock]\<rparr>"
      using i FastCheckModel by (simp add: step_def thread_step_def)
    then show ?thesis using quiet [of "shared s" _ "lock s"] FastCheckModel by simp
  next
    case FastCheckVectorizer
    have "step w s i = \<lparr>shared = shared s, lock = lock s,
        threads = (threads s)[i := if vectorizer (shared s) \<noteq> None
                                   then Returned FastPath else WaitLock]\<rparr>"
      using i FastCheckVectorizer by (simp add: step_def thread_step_def)
    then show ?thesis using quiet [of "shared s" _ "lock s"] FastCheckVectorizer d(5) by simp
  next
    case WaitLock
    show ?thesis
    proof (cases "lock s")
      case None
      then have "step w s i = \<lparr>shared = emit Acquire (shared s), lock = Some i,
          threads = (threads s)[i := CheckModel]\<rparr>"
        using i WaitLock by (simp add: step_def thread_step_def)
      then show ?thesis using quiet [of "emit Acquire (shared s)" CheckModel "Some i"] WaitLock
        by (simp add: count_event_emit)
    next
      case (Some k)
      then have "step w s i = s" using i WaitLock by (simp add: step_def thread_step_def)
      then show ?thesis using inv by simp
    qed
  next
    case CheckModel
    have "step w s i = \<lparr>shared = shared s, lock = lock s,
        threads = (threads s)[i := if loaded_model (shared s) = None
                                   then LoadModel else CheckVectorizer]\<rparr>"
      using i CheckModel by (simp add: step_def thread_step_def)
    then show ?thesis using quiet [of "shared s" _ "lock s"] CheckModel d(5) by auto
  next
    case CheckVectorizer
    have v: "vectorizer (shared s) \<noteq> None"
    proof
      assume n: "vectorizer (shared s) = None"
      have "loaded_model (shared s) \<noteq> None" using oki CheckVectorizer by simp
      then obtain j where j: "j < length (threads s)" "threads s ! j = LoadVectorizer"
        using d(7) n by auto
      then have "j \<noteq> i" using CheckVectorizer by auto
      then have "\<not> holds_lock (threads s ! j)"
        using others_wait [OF li i _ j(1)] CheckVectorizer by simp
      then show False using j(2) by simp
    qed
    have "step w s i = \<lparr>shared = shared s, lock = lock s,
        threads = (threads s)[i := Unlock (Inr Waited)]\<rparr>"
      using i CheckVectorizer v by (auto simp: step_def thread_step_def)
    then show ?thesis using quiet [of "shared s" _ "lock s"] CheckVectorizer v d(5) by simp
  next
    case LoadModel
    have "read_pickle w ModelFile (MODEL_PATH (shared s)) (shared s)
        = (Inr (Some m), emit (Unpickled ModelFile) (emit (Opened ModelFile) (shared s)))"
      using ok(1,2) d(1) by (simp add: read_pickle_def)
    then have "step w s i =
        \<lparr>shared = (emit (Unpickled ModelFile) (emit (Opened ModelFile) (shared s)))
                    \<lparr>loaded_model := Some m\<rparr>,
          lock = lock s, threads = (threads s)[i := LoadVectorizer]\<rparr>"
      using i LoadModel by (simp add: step_def thread_step_def)
    then show ?thesis using load_inv_load_model [OF inv li i LoadModel refl] by simp
  next
    case LoadVectorizer
    have "read_pickle w VectorizerFile (VECTORIZER_PATH (shared s)) (shared s)
        = (Inr (Some v), emit (Unpickled VectorizerFile) (emit (Opened VectorizerFile) (shared s)))"
      using ok(3,4) d(2) by (simp add: read_pickle_def)
    then have "step w s i =
        \<lparr>shared = (emit (Unpickled VectorizerFile) (emit (Opened VectorizerFile) (shared s)))
                    \<lparr>vectorizer := Some v\<rparr>,
          lock = lock s, threads = (threads s)[i := Unlock (Inr Loaded)]\<rparr>"
      using i LoadVectorizer by (simp add: step_def thread_step_def)
    then show ?thesis using load_inv_load_vectorizer [OF inv li i LoadVectorizer refl] by simp
  next
    case (Unlock out)
    then obtain h where h: "out = Inr h" "loaded_model (shared s) \<noteq> None"
      "vectorizer (shared s) \<noteq> None"
      using oki by auto
    have "step w s i = \<lparr>shared = emit Release (shared s), lock = None,
        threads = (threads s)[i := Returned h]\<rparr>"
      using i Unlock h by (simp add: step_def thread_step_def)
    then show ?thesis using quiet [of "emit Release (shared s)" "Returned h" None] Unlock h
      by (auto simp: count_event_emit)
  next
    case (Returned h)
    then have "step w s i = s" using i by (simp add: step_def thread_step_def)
    then show ?thesis using inv by simp
  next
    case (Raised e)
    then have "step w s i = s" using i by (simp add: step_def thread_step_def)
    then show ?thesis using inv by simp
  qed
qed

lemma load_inv_spawn:
  "loaded_model g = None \<Longrightarrow> vectorizer g = None \<Longrightarrow> load_inv g (spawn n g)"
  by (simp add: load_inv_def spawn_def)

lemma invs_exec:
  assumes ok: "fs_open w (MODEL_PATH g0) = Inr bm" "pickle_load w bm = Inr (Some m)"
      "fs_open w (VECTORIZER_PATH g0) = Inr bv" "pickle_load w bv = Inr (Some v)"
    and "load_inv g0 s" and "lock_inv s"
  shows "load_inv g0 (exec w sched s) \<and> lock_inv (exec w sched s)"
  using assms(5,6)
proof (induction sched arbitrary: s)
  case Nil
  then show ?case by simp
next
  case (Cons i sched)
  have "load_inv g0 (step w s i)" using load_inv_step [OF ok Cons.prems] .
  moreover have "lock_inv (step w s i)" using Cons.prems(2) by (rule lock_inv_step)
  ultimately show ?case using Cons.IH by simp
qed

text \<open>
  A thread that runs alone makes at most eight steps, and they amount to one call of
  \<open>load_artifacts_once\<close>: the same globals, the same trace, the same outcome.
\<close>

lemma exec8: "exec w (replicate 8 0) s =
  step w (step w (step w (step w (step w (step w (step w (step w s 0) 0) 0) 0) 0) 0) 0) 0"
  by (simp add: exec_def numeral_eq_Suc)

lemma step0:
  "step w \<lparr>shared = g, lock = l, threads = [p]\<rparr> 0 =
     (case thread_step w 0 p g l of
        None \<Rightarrow> \<lparr>shared = g, lock = l, threads = [p]\<rparr>
      | Some (p', g', l') \<Rightarrow> \<lparr>shared = g', lock = l', threads = [p']\<rparr>)"
  by (simp add: step_def split: option.splits)

lemma single_thread_fast:
  assumes "loaded_model g \<noteq> None" and "vectorizer g \<noteq> None"
  shows "exec w (replicate 8 0) (spawn 1 g) =
     \<lparr>shared = snd (load_artifacts_once w g), lock = None, threads = [Returned FastPath]\<rparr>"
  using assms
  by (simp add: exec8 spawn_def step0 thread_step_def load_artifacts_once_def)

lemma single_thread_slow:
  assumes "loaded_model g = None \<or> vectorizer g = None"
  shows "exec w (replicate 8 0) (spawn 1 g) =
     \<lparr>shared = snd (load_artifacts_once w g), lock = None,
       threads = [case fst (load_artifacts_once w g) of
                    Inl e \<Rightarrow> Raised e | Inr u \<Rightarrow> Returned Loaded]\<rparr>"
proof -
  obtain r1 g1 where r1: "read_pickle w ModelFile (MODEL_PATH g) (emit Acquire g) = (r1, g1)"
    by (cases "read_pickle w ModelFile (MODEL_PATH g) (emit Acquire g)")
  obtain r3 g3 where r3: "read_pickle w VectorizerFile (VECTORIZER_PATH g)
      (g1\<lparr>loaded_model := case r1 of Inr m \<Rightarrow> m | Inl e \<Rightarrow> None\<rparr>) = (r3, g3)"
    by (cases "read_pickle w VectorizerFile (VECTORIZER_PATH g)
      (g1\<lparr>loaded_model := case r1 of Inr m \<Rightarrow> m | Inl e \<Rightarrow> None\<rparr>)")
  have p: "VECTORIZER_PATH g1 = VECTORIZER_PATH g" "MODEL_PATH g1 = MODEL_PATH g"
    "vectorizer g1 = vectorizer g"
    using read_pickle_fields [of w ModelFile "MODEL_PATH g" "emit Acquire g"] r1 by simp_all
  have q: "vectorizer g3 = vectorizer g"
    using read_pickle_fields(4) [of w VectorizerFile "VECTORIZER_PATH g"
        "g1\<lparr>loaded_model := case r1 of Inr m \<Rightarrow> m | Inl e \<Rightarrow> None\<rparr>"] r3 p by simp
  show ?thesis
  proof (cases "loaded_model g")
    case None
    then show ?thesis using r1 r3 p
      by (cases r1; cases r3)
        (simp_all add: exec8 spawn_def step0 thread_step_def load_artifacts_once_def
          load_locked_def)
  next
    case (Some x)
    then have v: "vectorizer g = None" using assms by simp
    show ?thesis using Some v r1 r3 p
      by (cases r1; cases r3)
        (simp_all add: exec8 spawn_def step0 thread_step_def load_artifacts_once_def
          load_locked_def)
  qed
qed

lemmas run_defs = exec_def spawn_def step_def thread_step_def read_pickle_def emit_def
  count_event_def disk_def pickles_def

text \<open>
  Two callers, one after the other, while the vectorizer file is missing: each of them
  deserializes the model file, none deserializes the vectorizer file, and both raise.
\<close>

theorem failed_cold_start_counterexample:
  "threads (exec no_vectorizer_disk [0, 0, 0, 0, 0, 0, 1, 1, 1, 1, 1, 1, 1, 1] (spawn 2 cold))
     = [Raised FileNotFoundError, Raised FileNotFoundError]
   \<and> count_event (Unpickled ModelFile)
       (shared (exec no_vectorizer_disk [0, 0, 0, 0, 0, 0, 1, 1, 1, 1, 1, 1, 1, 1] (spawn 2 cold)))
     = 2
   \<and> count_event (Unpickled VectorizerFile)
       (shared (exec no_vectorizer_disk [0, 0, 0, 0, 0, 0, 1, 1, 1, 1, 1, 1, 1, 1] (spawn 2 cold)))
     = 0"
  by (simp add: run_defs no_vectorizer_disk_def numeral_2_eq_2)

text \<open>
  C2, as the code has it: any number of threads call the loader with no artifact loaded, and
  both files deserialize to objects. Under every schedule and at every moment, each file has
  been deserialized at most once, at most one thread is between acquisition and release of the
  lock, and so no two threads deserialize at the same time. As soon as one call has ended,
  each file has been deserialized exactly once, by one and the same thread; every call that
  has ended has returned (none has raised), on the fast path, or after taking the lock and
  finding both artifacts present, or as the one that loaded. While a call is pending some
  thread can move, and running the threads in turn ends every call.
\<close>

theorem cold_start_loads_once:
  assumes "loaded_model g = None" and "vectorizer g = None"
    and "fs_open w (MODEL_PATH g) = Inr bm" and "pickle_load w bm = Inr (Some m)"
    and "fs_open w (VECTORIZER_PATH g) = Inr bv" and "pickle_load w bv = Inr (Some v)"
    and "s = exec w sched (spawn n g)"
  shows
    "length (threads s) = n
     \<and> count_event (Unpickled ModelFile) (shared s) \<le> count_event (Unpickled ModelFile) g + 1
     \<and> count_event (Unpickled VectorizerFile) (shared s)
         \<le> count_event (Unpickled VectorizerFile) g + 1
     \<and> (\<forall>i < n. \<forall>j < n.
           deserializing (threads s ! i) \<and> deserializing (threads s ! j) \<longrightarrow> i = j)
     \<and> (\<forall>i < n. \<forall>j < n. holds_lock (threads s ! i) \<and> holds_lock (threads s ! j) \<longrightarrow> i = j)
     \<and> (\<forall>i < n. finished (threads s ! i) \<longrightarrow>
           count_event (Unpickled ModelFile) (shared s)
             = count_event (Unpickled ModelFile) g + 1
           \<and> count_event (Unpickled VectorizerFile) (shared s)
             = count_event (Unpickled VectorizerFile) g + 1
           \<and> (threads s ! i = Returned FastPath \<or> threads s ! i = Returned Waited
               \<or> threads s ! i = Returned Loaded)
           \<and> (\<exists>k < n. \<forall>j < n. is_loader (threads s ! j) = (j = k)))
     \<and> ((\<exists>i < n. \<not> finished (threads s ! i)) \<longrightarrow> (\<exists>i < n. step w s i \<noteq> s))
     \<and> (\<forall>i < n. finished (threads (exec w (round_robin n (8 * n)) s) ! i))"
proof -
  have inv0: "load_inv g (spawn n g)" using assms(1,2) by (rule load_inv_spawn)
  have "load_inv g (exec w sched (spawn n g)) \<and> lock_inv (exec w sched (spawn n g))"
    using invs_exec [OF assms(3-6) inv0 lock_inv_spawn] .
  then have inv: "load_inv g s" and li: "lock_inv s" using assms(7) by simp_all
  note d = load_invD [OF inv]
  have len: "length (threads s) = n" using assms(7) by (simp add: spawn_def)
  have cm: "count_event (Unpickled ModelFile) (shared s) \<le> count_event (Unpickled ModelFile) g + 1"
    using d(3) by simp
  have cv: "count_event (Unpickled VectorizerFile) (shared s)
      \<le> count_event (Unpickled VectorizerFile) g + 1"
    using d(4) by simp
  have mutex: "\<forall>i < n. \<forall>j < n. holds_lock (threads s ! i) \<and> holds_lock (threads s ! j) \<longrightarrow> i = j"
  proof (intro allI impI)
    fix i j assume i: "i < n" and j: "j < n"
      and h: "holds_lock (threads s ! i) \<and> holds_lock (threads s ! j)"
    show "i = j"
    proof (rule ccontr)
      assume "i \<noteq> j"
      then have "\<not> holds_lock (threads s ! j)"
        using others_wait [OF li, of i j] i j h len by auto
      then show False using h by simp
    qed
  qed
  have dh: "deserializing p \<Longrightarrow> holds_lock p" for p by (cases p) simp_all
  have des: "\<forall>i < n. \<forall>j < n.
      deserializing (threads s ! i) \<and> deserializing (threads s ! j) \<longrightarrow> i = j"
    using mutex dh by blast
  have fin: "\<forall>i < n. finished (threads s ! i) \<longrightarrow>
           count_event (Unpickled ModelFile) (shared s)
             = count_event (Unpickled ModelFile) g + 1
           \<and> count_event (Unpickled VectorizerFile) (shared s)
             = count_event (Unpickled VectorizerFile) g + 1
           \<and> (threads s ! i = Returned FastPath \<or> threads s ! i = Returned Waited
               \<or> threads s ! i = Returned Loaded)
           \<and> (\<exists>k < n. \<forall>j < n. is_loader (threads s ! j) = (j = k))"
  proof (intro allI impI)
    fix i assume i: "i < n" and f: "finished (threads s ! i)"
    have ok: "pc_ok (shared s) (threads s ! i)" using d(6) i len by simp
    then obtain h where h: "threads s ! i = Returned h" using f by (cases "threads s ! i") simp_all
    then have both: "loaded_model (shared s) \<noteq> None" "vectorizer (shared s) \<noteq> None"
      using ok by simp_all
    have r: "threads s ! i = Returned FastPath \<or> threads s ! i = Returned Waited
               \<or> threads s ! i = Returned Loaded"
      using h by (cases h) simp_all
    have k: "\<exists>k < n. \<forall>j < n. is_loader (threads s ! j) = (j = k)"
      using d(9) both len by simp
    show "count_event (Unpickled ModelFile) (shared s)
             = count_event (Unpickled ModelFile) g + 1
           \<and> count_event (Unpickled VectorizerFile) (shared s)
             = count_event (Unpickled VectorizerFile) g + 1
           \<and> (threads s ! i = Returned FastPath \<or> threads s ! i = Returned Waited
               \<or> threads s ! i = Returned Loaded)
           \<and> (\<exists>k < n. \<forall>j < n. is_loader (threads s ! j) = (j = k))"
      using d(3,4) both r k by simp
  qed
  have prog: "(\<exists>i < n. \<not> finished (threads s ! i)) \<longrightarrow> (\<exists>i < n. step w s i \<noteq> s)"
    using no_deadlock [OF li, of _ w] len by blast
  have "remaining s \<le> 8 * n"
    using remaining_exec [of w sched "spawn n g"] assms(7) by (simp add: remaining_spawn)
  then have "remaining (exec w (round_robin n (8 * n)) s) = 0"
    using round_robin_finishes [OF li _ len [symmetric]] by simp
  then have done_all: "\<forall>i < n. finished (threads (exec w (round_robin n (8 * n)) s) ! i)"
    using all_finished_remaining [of "exec w (round_robin n (8 * n)) s"] len by simp
  show ?thesis
    by (intro conjI) (rule len, rule cm, rule cv, rule des, rule mutex, rule fin, rule prog,
        rule done_all)
qed

theorem cold_start_loads_once_witness:
  "threads (exec good_disk [0, 0, 0, 0, 1, 1, 0, 0, 1, 1, 1, 1, 2, 2] (spawn 3 cold))
     = [Returned Loaded, Returned Waited, Returned FastPath]
   \<and> count_event (Unpickled ModelFile)
       (shared (exec good_disk [0, 0, 0, 0, 1, 1, 0, 0, 1, 1, 1, 1, 2, 2] (spawn 3 cold))) = 1
   \<and> count_event (Unpickled VectorizerFile)
       (shared (exec good_disk [0, 0, 0, 0, 1, 1, 0, 0, 1, 1, 1, 1, 2, 2] (spawn 3 cold))) = 1"
proof -
  define s where "s = exec good_disk [0, 0, 0, 0, 1, 1, 0, 0, 1, 1, 1, 1, 2, 2] (spawn 3 cold)"
  have c: "loaded_model cold = None" "vectorizer cold = None" by simp_all
  have o: "fs_open good_disk (MODEL_PATH cold) = Inr ''M''"
    "pickle_load good_disk ''M'' = Inr (Some (stub_classifier (Native (PyStr ''FAKE''))))"
    "fs_open good_disk (VECTORIZER_PATH cold) = Inr ''V''"
    "pickle_load good_disk ''V'' = Inr (Some stub_vectorizer)"
    by (simp_all add: good_disk_def disk_def pickles_def)
  have th: "threads s = [Returned Loaded, Returned Waited, Returned FastPath]"
    unfolding s_def by (simp add: run_defs good_disk_def numeral_2_eq_2 numeral_3_eq_3)
  have z: "count_event e cold = 0" for e by (simp add: count_event_def)
  have f: "(0::nat) < 3 \<and> finished (threads s ! 0)" by (simp add: th)
  have "finished (threads s ! 0) \<longrightarrow>
      count_event (Unpickled ModelFile) (shared s) = count_event (Unpickled ModelFile) cold + 1
      \<and> count_event (Unpickled VectorizerFile) (shared s)
          = count_event (Unpickled VectorizerFile) cold + 1"
    using cold_start_loads_once [OF c o s_def] f by blast
  then have "count_event (Unpickled ModelFile) (shared s) = 1
      \<and> count_event (Unpickled VectorizerFile) (shared s) = 1"
    using f z by simp
  then show ?thesis using th by (simp add: s_def)
qed

end
